theory Spec2Isabelle
  imports Complex_Main "HOL-Library.AList"
begin

section \<open>Python values used by \<open>main.py\<close>\<close>

text \<open>
  Python integers are unbounded: \<open>int\<close>. A detection label (a tuple of photon numbers) is
  an \<open>int list\<close>. Probabilities are floats, idealised as \<open>real\<close>. A dictionary is an
  association list in insertion order; \<open>d[k] = v\<close> is \<open>AList.update k v d\<close>, which
  overwrites in place or appends, as a Python dict does, and \<open>d.get(k, dflt)\<close> is
  \<open>dict_get\<close>. Two dictionaries are equal in Python when they hold the same key/value pairs,
  that is when their \<open>map_of\<close> agree.

  The exceptions the module can raise are values: a recursion that never reaches its
  base case, an index outside the mode register, the refusal of \<open>sf.Program\<close> to create a
  register of fewer than one mode, and whatever the external simulator raises.

  The weights of every dictionary the module builds are NumPy \<open>float64\<close> scalars: they
  come from \<open>state.fock_prob\<close>, and sums, products and quotients of such scalars are such
  scalars again. Their division never raises: a zero divisor gives \<open>nan\<close> for a zero
  dividend and \<open>inf\<close> or \<open>-inf\<close> otherwise, with a warning only. \<open>np_float\<close> is a float
  that may be one of these; \<open>np_truediv\<close> is the division. A dictionary built by hand from
  Python's own \<open>float\<close>, whose division by zero raises, is not modelled.
\<close>

datatype py_error = RecursionError | IndexError | ValueError | BackendError string

datatype np_float = Finite real | NaN | PosInf | NegInf

type_synonym outcome = "int list"
type_synonym prob_dict = "(outcome \<times> real) list"
type_synonym np_dict = "(outcome \<times> np_float) list"

text \<open>
  A function that returns a distribution ends in one of three ways: it raises, it returns
  a dictionary whose weights are all finite, or it returns a dictionary holding \<open>nan\<close> or
  \<open>inf\<close>. The finite dictionary is the result \<open>Inr\<close>; the other two are \<open>Inl\<close>:
  \<open>Raised\<close> with the exception, or \<open>NonFinite\<close> with the dictionary as returned
  (\<open>traceOverHV\<close> returns two dictionaries, so there it is the pair). The simulator's
  probabilities are taken as real numbers, so \<open>computeWalkOutput\<close> itself returns \<open>Inr\<close> or
  \<open>Raised\<close>.
\<close>

datatype 'n abnormal = Raised py_error | NonFinite 'n

definition py_range :: "int \<Rightarrow> int list" where
  \<comment> \<open>\<open>range(n)\<close>\<close>
  "py_range n = [0..n - 1]"

definition py_range_down :: "int \<Rightarrow> int list" where
  \<comment> \<open>\<open>range(a, -1, -1)\<close>: a, a-1, ..., 0\<close>
  "py_range_down a = rev [0..a]"

definition dict_get :: "('k \<times> 'v) list \<Rightarrow> 'k \<Rightarrow> 'v \<Rightarrow> 'v" where
  "dict_get d k dflt = (case map_of d k of None \<Rightarrow> dflt | Some v \<Rightarrow> v)"

definition np_truediv :: "real \<Rightarrow> real \<Rightarrow> np_float" where
  "np_truediv a b =
     (if b = 0 then (if a = 0 then NaN else if 0 < a then PosInf else NegInf)
      else Finite (a / b))"

fun finite_value :: "np_float \<Rightarrow> real option" where
  "finite_value (Finite x) = Some x"
| "finite_value NaN = None"
| "finite_value PosInf = None"
| "finite_value NegInf = None"

fun finite_dict :: "np_dict \<Rightarrow> prob_dict option" where
  \<comment> \<open>the dictionary with real weights, when every weight is finite\<close>
  "finite_dict [] = Some []"
| "finite_dict ((key, value) # d) =
     (case finite_value value of None \<Rightarrow> None
      | Some x \<Rightarrow> (case finite_dict d of None \<Rightarrow> None | Some q \<Rightarrow> Some ((key, x) # q)))"

section \<open>\<open>generate_photon_outcomes\<close>\<close>

text \<open>
  The nested helper appends to the enclosing list \<open>outcomes\<close>; the model passes that list
  in and returns it extended. The helper counts \<open>current_mode\<close> up from 0 and stops only at
  \<open>current_mode == N\<close>. Beyond \<open>N\<close> (possible only for a negative \<open>N\<close>) the source either
  finds its \<open>range\<close> empty and returns, or recurses without end, which Python reports as
  RecursionError; the third branch of the helper and the guard of
  \<open>generate_photon_outcomes\<close> write these two cases out. The recursion depth is otherwise
  taken as unbounded.
\<close>

function generate_outcomes_helper ::
  "int \<Rightarrow> int \<Rightarrow> outcome \<Rightarrow> int \<Rightarrow> int \<Rightarrow> outcome list \<Rightarrow> outcome list" where
  "generate_outcomes_helper N max_photons current_outcome remaining_photons current_mode outcomes =
     (if current_mode = N then
        (if remaining_photons \<ge> 0 then outcomes @ [current_outcome] else outcomes)
      else if N < current_mode then outcomes
      else fold (\<lambda>photons_in_mode outs.
                   generate_outcomes_helper N max_photons
                     (current_outcome @ [photons_in_mode])
                     (remaining_photons - photons_in_mode) (current_mode + 1) outs)
             (py_range (min (max_photons + 1) (remaining_photons + 1))) outcomes)"
  by pat_completeness auto
termination
  by (relation "measure (\<lambda>(N, max_photons, current_outcome, remaining_photons, current_mode, outcomes).
        nat (N - current_mode))") auto

declare generate_outcomes_helper.simps [simp del]

definition generate_photon_outcomes :: "int \<Rightarrow> int \<Rightarrow> py_error + outcome list" where
  "generate_photon_outcomes N max_photons =
     (if N < 0 \<and> 0 \<le> max_photons then Inl RecursionError
      else Inr (generate_outcomes_helper N max_photons [] max_photons 0 []))"

text \<open>
  The same enumeration as a structural recursion over the number of modes still to fill,
  without the accumulator and the prefix: the form the proofs work with.
\<close>

fun compositions :: "nat \<Rightarrow> int \<Rightarrow> int \<Rightarrow> outcome list" where
  "compositions 0 M rem = (if 0 \<le> rem then [[]] else [])"
| "compositions (Suc n) M rem =
     concat (map (\<lambda>p. map ((#) p) (compositions n M (rem - p))) [0..min M rem])"

section \<open>Operations on distributions\<close>

definition convolve_probabilities :: "prob_dict \<Rightarrow> prob_dict \<Rightarrow> int \<Rightarrow> prob_dict" where
  "convolve_probabilities prob1 prob2 max_photons =
     fold (\<lambda>(outcome1, prob1_value) convolved_prob.
        fold (\<lambda>(outcome2, prob2_value) convolved_prob.
           (let convolved_outcome = map (\<lambda>(x, y). x + y) (zip outcome1 outcome2) in
            if sum_list convolved_outcome \<le> max_photons then
              AList.update convolved_outcome
                (dict_get convolved_prob convolved_outcome 0 + prob1_value * prob2_value)
                convolved_prob
            else convolved_prob))
          prob2 convolved_prob)
       prob1 []"

definition normalizeProbDict_values :: "prob_dict \<Rightarrow> np_dict" where
  \<comment> \<open>the comprehension \<open>{key: value / sum(p.values()) for key, value in p.items()}\<close>\<close>
  "normalizeProbDict_values p =
     map (\<lambda>(key, value). (key, np_truediv value (sum_list (map snd p)))) p"

definition normalizeProbDict :: "prob_dict \<Rightarrow> np_dict abnormal + prob_dict" where
  \<comment> \<open>never raises; the returned dictionary is sorted into finite and not\<close>
  "normalizeProbDict p =
     (case finite_dict (normalizeProbDict_values p) of
        Some q \<Rightarrow> Inr q
      | None \<Rightarrow> Inl (NonFinite (normalizeProbDict_values p)))"


fun slice_from0_step2 :: "'a list \<Rightarrow> 'a list" where
  \<comment> \<open>\<open>key[::2]\<close>\<close>
  "slice_from0_step2 [] = []"
| "slice_from0_step2 [x] = [x]"
| "slice_from0_step2 (x # y # xs) = x # slice_from0_step2 xs"

definition slice_from1_step2 :: "'a list \<Rightarrow> 'a list" where
  \<comment> \<open>\<open>key[1::2]\<close>\<close>
  "slice_from1_step2 xs = slice_from0_step2 (drop 1 xs)"

definition traceOverHV_loop :: "prob_dict \<Rightarrow> prob_dict \<times> prob_dict" where
  "traceOverHV_loop pDict =
     fold (\<lambda>(key, value) (H_probabilities, V_probabilities).
        (let H_outcome = slice_from0_step2 key;
             V_outcome = slice_from1_step2 key
         in (AList.update H_outcome (dict_get H_probabilities H_outcome 0 + value) H_probabilities,
             AList.update V_outcome (dict_get V_probabilities V_outcome 0 + value) V_probabilities)))
       pDict ([], [])"

definition traceOverHV ::
  "prob_dict \<Rightarrow> (np_dict \<times> np_dict) abnormal + (prob_dict \<times> prob_dict)" where
  \<comment> \<open>the pair of normalised dictionaries: \<open>Inr\<close> when both are finite\<close>
  "traceOverHV pDict =
     (case traceOverHV_loop pDict of (H_probabilities, V_probabilities) \<Rightarrow>
        (case (finite_dict (normalizeProbDict_values H_probabilities),
               finite_dict (normalizeProbDict_values V_probabilities)) of
           (Some H, Some V) \<Rightarrow> Inr (H, V)
         | _ \<Rightarrow> Inl (NonFinite (normalizeProbDict_values H_probabilities,
                                  normalizeProbDict_values V_probabilities))))"

section \<open>Accumulating weights into a dictionary\<close>

text \<open>
  The loops of \<open>convolve_probabilities\<close> and \<open>traceOverHV\<close> all run the statement
  \<open>d[k] = d.get(k, 0) + v\<close>. \<open>dict_add\<close> is that statement, \<open>accumulate\<close> runs it over a
  list of key/weight pairs, and \<open>kept_pairs\<close> lists, in loop order, the summed outcome and
  the weight product of every pair the convolution keeps. The proofs reduce the loops to
  these.
\<close>

definition dict_add :: "'k \<Rightarrow> real \<Rightarrow> ('k \<times> real) list \<Rightarrow> ('k \<times> real) list" where
  "dict_add k v d = AList.update k (dict_get d k 0 + v) d"

definition accumulate :: "('k \<times> real) list \<Rightarrow> ('k \<times> real) list \<Rightarrow> ('k \<times> real) list" where
  "accumulate kvs d = fold (\<lambda>(k, v). dict_add k v) kvs d"

definition kept_pairs :: "prob_dict \<Rightarrow> prob_dict \<Rightarrow> int \<Rightarrow> prob_dict" where
  "kept_pairs prob1 prob2 M =
     concat (map (\<lambda>(o1, p1).
        filter (\<lambda>(s, w). sum_list s \<le> M)
          (map (\<lambda>(o2, p2). (map (\<lambda>(x, y). x + y) (zip o1 o2), p1 * p2)) prob2)) prob1)"

section \<open>The walk circuit and \<open>computeWalkOutput\<close>\<close>

text \<open>
  The simulator (Strawberry Fields) is outside the module. What the module hands to it is
  the number of modes of \<open>sf.Program\<close> and the gates in the order in which the \<open>with\<close>
  block applies them; what it gets back is either an exception or a state whose
  \<open>fock_prob\<close> maps an occupation label to a probability. The model takes that service as
  the parameter \<open>eng\<close>. \<open>np.sqrt\<close> of a negative number is \<open>nan\<close>, not an error.

  Before the simulator runs, the module creates the program and applies the gates to
  entries \<open>q[i]\<close> of its mode register, a tuple of \<open>nModes + 1\<close> modes. \<open>sf.Program\<close> raises
  ValueError for a mode count below 1, and indexing the tuple outside its range raises
  IndexError. Every such failure is the same exception and nothing else of a partly built
  program can be observed, so the model checks the indices of all gates at once.
\<close>

definition np_sqrt :: "real \<Rightarrow> np_float" where
  "np_sqrt x = (if x < 0 then NaN else Finite (sqrt x))"

datatype gate =
    S2gate real real int int
  | LossChannel real int
  | Coherent np_float int
  | BSgate real real int int
  | ThermalLossChannel real real int

type_synonym fock_state = "outcome \<Rightarrow> real"
type_synonym engine = "int \<Rightarrow> gate list \<Rightarrow> py_error + fock_state"

definition sf_Program :: "int \<Rightarrow> py_error + nat" where
  \<comment> \<open>\<open>sf.Program(n)\<close>: the size of the register, or the refusal\<close>
  "sf_Program n = (if n < 1 then Inl ValueError else Inr (nat n))"

fun gate_modes :: "gate \<Rightarrow> int list" where
  "gate_modes (S2gate r phi i j) = [i, j]"
| "gate_modes (LossChannel T i) = [i]"
| "gate_modes (Coherent a i) = [i]"
| "gate_modes (BSgate theta phi i j) = [i, j]"
| "gate_modes (ThermalLossChannel T nbar i) = [i]"

definition in_register :: "nat \<Rightarrow> gate \<Rightarrow> bool" where
  \<comment> \<open>every \<open>q[i]\<close> of the gate is a valid index of a tuple of that size\<close>
  "in_register len g = list_all (\<lambda>i. - int len \<le> i \<and> i < int len) (gate_modes g)"

definition walk_step :: "real \<Rightarrow> int \<Rightarrow> gate list \<Rightarrow> gate list" where
  \<comment> \<open>the body of \<open>for stepNumber in range(nSteps+1)\<close>\<close>
  "walk_step gamma stepNumber prog =
     (let prog1 =
        (if stepNumber mod 2 = 1 then
           fold (\<lambda>k p. p @ [BSgate (- pi / 4) 0 (2 * k + 1) (2 * k + 2),
                              BSgate (- pi / 4) 0 (2 * k + 3) (2 * k + 4),
                              BSgate (pi / 2) gamma (2 * k + 2) (2 * k + 4),
                              BSgate (pi / 4) 0 (2 * k + 1) (2 * k + 2),
                              BSgate (pi / 4) 0 (2 * k + 3) (2 * k + 4)])
                (py_range_down (stepNumber - 1)) prog
         else prog)
      in if stepNumber mod 2 = 0 then
           fold (\<lambda>k p. p @ [BSgate (pi / 2) gamma (2 * k + 2) (2 * k + 4)])
                (py_range_down (stepNumber - 1)) prog1
         else prog1)"

definition walk_program ::
  "int \<Rightarrow> real \<Rightarrow> np_float \<Rightarrow> real \<Rightarrow> real \<Rightarrow> real \<Rightarrow> real \<Rightarrow> gate list" where
  \<comment> \<open>the gates applied inside \<open>with prog.context as q\<close>, in order; \<open>build_program\<close>
      checks their mode indices against the register\<close>
  "walk_program nSteps r alpha eta gamma n_noise etaFock =
     (let nModes = 2 * nSteps + 2;
          prog0 = [S2gate r 0 0 1, LossChannel etaFock 1, Coherent alpha 2];
          prog1 = fold (walk_step gamma) (py_range (nSteps + 1)) prog0;
          prog2 = (if nSteps mod 2 = 1 then
                     fold (\<lambda>k p. p @ [BSgate (- pi / 4) 0 (2 * k + 1) (2 * k + 2)])
                          (py_range (nSteps + 1)) prog1
                   else prog1)
      in fold (\<lambda>i p. p @ [ThermalLossChannel eta n_noise i]) (py_range (nModes + 1)) prog2)"

definition build_program ::
  "int \<Rightarrow> real \<Rightarrow> np_float \<Rightarrow> real \<Rightarrow> real \<Rightarrow> real \<Rightarrow> real \<Rightarrow> py_error + gate list" where
  \<comment> \<open>\<open>prog = sf.Program(nModes+1)\<close> and the \<open>with\<close> block: the program, or the exception\<close>
  "build_program nSteps r alpha eta gamma n_noise etaFock =
     (let nModes = 2 * nSteps + 2 in
      case sf_Program (nModes + 1) of
        Inl e \<Rightarrow> Inl e
      | Inr len \<Rightarrow>
          (let prog = walk_program nSteps r alpha eta gamma n_noise etaFock in
           if list_all (in_register len) prog then Inr prog else Inl IndexError))"

definition computeWalkOutput ::
  "engine \<Rightarrow> int \<Rightarrow> real \<Rightarrow> real \<Rightarrow> real \<Rightarrow> real \<Rightarrow> int \<Rightarrow> real \<Rightarrow> real
     \<Rightarrow> np_dict abnormal + prob_dict" where
  "computeWalkOutput eng nSteps r alphaSq eta gamma max_photons n_noise etaFock =
     (let nModes = 2 * nSteps + 2;
          alpha = np_sqrt alphaSq
      in case build_program nSteps r alpha eta gamma n_noise etaFock of
           Inl e \<Rightarrow> Inl (Raised e)
         | Inr prog \<Rightarrow>
             (case eng (nModes + 1) prog of
                Inl e \<Rightarrow> Inl (Raised e)
              | Inr state \<Rightarrow>
                  (case generate_photon_outcomes nModes max_photons of
                     Inl e \<Rightarrow> Inl (Raised e)
                   | Inr allLabels \<Rightarrow>
                       Inr (fold (\<lambda>k pn. AList.update (allLabels ! k) (state (1 # allLabels ! k)) pn)
                              [0..<length allLabels] []))))"

definition computeWalkOutputWithMM ::
  "engine \<Rightarrow> int \<Rightarrow> real \<Rightarrow> real \<Rightarrow> real \<Rightarrow> real \<Rightarrow> real \<Rightarrow> int \<Rightarrow> real
     \<Rightarrow> np_dict abnormal + prob_dict" where
  "computeWalkOutputWithMM eng nSteps r alphaSq eta gamma mm max_photons n_noise =
     (case computeWalkOutput eng nSteps r (mm * alphaSq) eta gamma max_photons n_noise 1 of
        Inl e \<Rightarrow> Inl e
      | Inr pn_para \<Rightarrow>
          (case computeWalkOutput eng nSteps r ((1 - mm) * alphaSq) eta gamma max_photons n_noise 0 of
             Inl e \<Rightarrow> Inl e
           | Inr pn_perp \<Rightarrow> normalizeProbDict (convolve_probabilities pn_para pn_perp 2)))"

section \<open>The walk topology as the specification words it\<close>

text \<open>
  A second description of the gate sequence, written from the specification's state
  machine over the step index: an odd step is, for each earlier time bin in descending
  order, basis change, time shift, inverse basis change; an even step is the time shifts
  alone; an odd walk ends with one more basis change per time bin; loss and noise close
  the circuit on every mode. Angles are given in degrees as the specification has them.
\<close>

definition degrees :: "real \<Rightarrow> real" where
  "degrees d = d * pi / 180"

definition spec_basis_change :: "real \<Rightarrow> nat \<Rightarrow> gate list" where
  "spec_basis_change angle k =
     [BSgate (degrees angle) 0 (2 * int k + 1) (2 * int k + 2),
      BSgate (degrees angle) 0 (2 * int k + 3) (2 * int k + 4)]"

definition spec_time_shift :: "real \<Rightarrow> nat \<Rightarrow> gate list" where
  "spec_time_shift gamma k = [BSgate (degrees 90) gamma (2 * int k + 2) (2 * int k + 4)]"

definition spec_step :: "real \<Rightarrow> nat \<Rightarrow> gate list" where
  "spec_step gamma s =
     (if odd s then
        concat (map (\<lambda>k. spec_basis_change (- 45) k @ spec_time_shift gamma k
                            @ spec_basis_change 45 k) (rev [0..<s]))
      else concat (map (spec_time_shift gamma) (rev [0..<s])))"

definition spec_initialization :: "real \<Rightarrow> np_float \<Rightarrow> real \<Rightarrow> gate list" where
  "spec_initialization r alpha etaFock =
     [S2gate r 0 0 1, LossChannel etaFock 1, Coherent alpha 2]"

definition spec_terminal_correction :: "nat \<Rightarrow> gate list" where
  "spec_terminal_correction n =
     (if odd n then
        map (\<lambda>k. BSgate (degrees (- 45)) 0 (2 * int k + 1) (2 * int k + 2)) [0..<Suc n]
      else [])"

definition spec_closing_loss :: "real \<Rightarrow> real \<Rightarrow> nat \<Rightarrow> gate list" where
  "spec_closing_loss eta n_noise n =
     map (\<lambda>i. ThermalLossChannel eta n_noise (int i)) [0..<2 * n + 3]"

definition spec_walk_topology ::
  "nat \<Rightarrow> real \<Rightarrow> np_float \<Rightarrow> real \<Rightarrow> real \<Rightarrow> real \<Rightarrow> real \<Rightarrow> gate list" where
  "spec_walk_topology n r alpha eta gamma n_noise etaFock =
     spec_initialization r alpha etaFock
     @ concat (map (spec_step gamma) [0..<Suc n])
     @ spec_terminal_correction n
     @ spec_closing_loss eta n_noise n"

section \<open>Stand-ins for the simulator\<close>

text \<open>
  Two engines used to run the model on concrete inputs. \<open>stub_engine\<close> answers every
  circuit: when the heralded photon is blocked (\<open>LossChannel 0\<close> on mode 1) only the herald
  clicks, with probability 1/2; otherwise the herald clicks together with the vacuum
  (1/4) or with a single photon anywhere (1/8 each). \<open>failing_engine\<close> always raises.
\<close>

definition stub_state_blocked :: fock_state where
  "stub_state_blocked label =
     (if label = 1 # replicate (length label - 1) 0 then 1 / 2 else 0)"

definition stub_state_open :: fock_state where
  "stub_state_open label =
     (if label = 1 # replicate (length label - 1) 0 then 1 / 4
      else if take 1 label = [1] \<and> sum_list label = 2 then 1 / 8 else 0)"

definition stub_engine :: engine where
  "stub_engine n prog =
     Inr (if LossChannel 0 1 \<in> set prog then stub_state_blocked else stub_state_open)"

definition failing_engine :: engine where
  "failing_engine n prog = Inl (BackendError ''simulator'')"

section \<open>The outcome enumeration\<close>

lemma fold_appending:
  "(\<And>x a. x \<in> set xs \<Longrightarrow> f x a = a @ g x) \<Longrightarrow> fold f xs a = a @ concat (map g xs)"
  by (induction xs arbitrary: a) auto

lemma py_range_min: "py_range (min (M + 1) (rem + 1)) = [0..min M rem]"
  by (simp add: py_range_def min_def)

lemma helper_base:
  "generate_outcomes_helper N M cur rem N outs = (if 0 \<le> rem then outs @ [cur] else outs)"
  by (subst generate_outcomes_helper.simps) simp

lemma helper_rec:
  "mode < N \<Longrightarrow>
   generate_outcomes_helper N M cur rem mode outs =
     fold (\<lambda>p a. generate_outcomes_helper N M (cur @ [p]) (rem - p) (mode + 1) a)
       [0..min M rem] outs"
  by (subst generate_outcomes_helper.simps) (simp add: py_range_min)

lemma helper_compositions:
  "current_mode \<le> N \<Longrightarrow>
   generate_outcomes_helper N M cur rem current_mode outs =
     outs @ map ((@) cur) (compositions (nat (N - current_mode)) M rem)"
proof (induction N M cur rem current_mode outs rule: generate_outcomes_helper.induct)
  case (1 N M cur rem mode outs)
  show ?case
  proof (cases "mode = N")
    case True
    then show ?thesis by (simp add: helper_base)
  next
    case False
    with "1.prems" have lt: "mode < N" by simp
    define n where "n = nat (N - (mode + 1))"
    have n: "nat (N - mode) = Suc n" "nat (N - (mode + 1)) = n"
      using lt by (simp_all add: n_def)
    have step: "\<And>p a. p \<in> set [0..min M rem] \<Longrightarrow>
        generate_outcomes_helper N M (cur @ [p]) (rem - p) (mode + 1) a =
          a @ map ((@) (cur @ [p])) (compositions n M (rem - p))"
      using "1.IH"[OF False] lt n(2) by (simp add: py_range_min)
    have "generate_outcomes_helper N M cur rem mode outs =
            fold (\<lambda>p a. generate_outcomes_helper N M (cur @ [p]) (rem - p) (mode + 1) a)
              [0..min M rem] outs"
      using lt by (rule helper_rec)
    also have "\<dots> = outs @ concat (map (\<lambda>p. map ((@) (cur @ [p])) (compositions n M (rem - p)))
                                  [0..min M rem])"
      by (rule fold_appending) (rule step)
    also have "concat (map (\<lambda>p. map ((@) (cur @ [p])) (compositions n M (rem - p))) [0..min M rem])
                = map ((@) cur) (compositions (Suc n) M rem)"
    proof -
      have "\<And>p. (@) (cur @ [p]) = (\<lambda>ys. cur @ p # ys)" by (rule ext) simp
      then show ?thesis by (simp add: map_concat comp_def)
    qed
    finally show ?thesis by (simp add: n(1))
  qed
qed

lemma compositions_set:
  "set (compositions n M rem) =
     {ys. length ys = n \<and> (\<forall>y\<in>set ys. 0 \<le> y \<and> y \<le> M) \<and> sum_list ys \<le> rem}"
proof (induction n arbitrary: rem)
  case 0
  then show ?case by auto
next
  case (Suc n)
  have nonneg: "\<And>ys::int list. (\<forall>y\<in>set ys. 0 \<le> y) \<Longrightarrow> 0 \<le> sum_list ys"
    by (simp add: sum_list_nonneg)
  show ?case
  proof (rule set_eqI, rule iffI)
    fix xs assume "xs \<in> set (compositions (Suc n) M rem)"
    then obtain p ys where p: "0 \<le> p" "p \<le> M" "p \<le> rem" "xs = p # ys"
        and ys: "ys \<in> set (compositions n M (rem - p))"
      by auto
    from ys Suc.IH have "length ys = n" "\<forall>y\<in>set ys. 0 \<le> y \<and> y \<le> M" "sum_list ys \<le> rem - p"
      by auto
    with p show "xs \<in> {ys. length ys = Suc n \<and> (\<forall>y\<in>set ys. 0 \<le> y \<and> y \<le> M) \<and> sum_list ys \<le> rem}"
      by auto
  next
    fix xs assume "xs \<in> {ys. length ys = Suc n \<and> (\<forall>y\<in>set ys. 0 \<le> y \<and> y \<le> M) \<and> sum_list ys \<le> rem}"
    then obtain p ys where xs: "xs = p # ys" and len: "length ys = n"
        and p: "0 \<le> p" "p \<le> M" and b: "\<forall>y\<in>set ys. 0 \<le> y \<and> y \<le> M"
        and s: "p + sum_list ys \<le> rem"
      by (cases xs) auto
    from b have "0 \<le> sum_list ys" by (simp add: nonneg)
    with s have "p \<le> rem" by simp
    moreover from len b s Suc.IH have "ys \<in> set (compositions n M (rem - p))" by auto
    ultimately show "xs \<in> set (compositions (Suc n) M rem)"
      using p xs by auto
  qed
qed

lemma distinct_concat_tagged:
  "distinct ps \<Longrightarrow> (\<And>p. p \<in> set ps \<Longrightarrow> distinct (f p)) \<Longrightarrow>
   distinct (concat (map (\<lambda>p. map ((#) p) (f p)) ps))"
  by (induction ps) (auto simp: distinct_map)

lemma compositions_distinct: "distinct (compositions n M rem)"
  by (induction n arbitrary: rem) (auto intro!: distinct_concat_tagged)

lemma upto_as_nats: "[0..int k] = map int [0..<Suc k]"
proof (induction k)
  case 0
  then show ?case by (simp add: upto.simps)
next
  case (Suc k)
  have "[0..int (Suc k)] = [0..int k] @ [int (Suc k)]"
    using upto_rec2[of 0 "int (Suc k)"] by simp
  with Suc show ?case by simp
qed

lemma choose_column_sum: "(\<Sum>i<Suc k. (n + (k - i)) choose n) = (Suc n + k) choose Suc n"
proof -
  have "(\<Sum>i<Suc k. (n + (k - i)) choose n) = (\<Sum>i<Suc k. (n + i) choose n)"
    using sum.nat_diff_reindex[of "\<lambda>i. (n + i) choose n" "Suc k"] by simp
  also have "\<dots> = (\<Sum>i\<le>k. (n + i) choose i)"
    by (intro sum.cong) (auto simp: lessThan_Suc_atMost binomial_symmetric[of n "n + _", simplified])
  also have "\<dots> = Suc (n + k) choose k"
    by (rule sum_choose_lower)
  also have "\<dots> = (Suc n + k) choose Suc n"
    using binomial_symmetric[of k "Suc n + k"] by simp
  finally show ?thesis .
qed

lemma compositions_length:
  "0 \<le> rem \<Longrightarrow> rem \<le> M \<Longrightarrow> length (compositions n M rem) = (n + nat rem) choose n"
proof (induction n arbitrary: rem)
  case 0
  then show ?case by simp
next
  case (Suc n)
  define k where "k = nat rem"
  with Suc.prems have rem: "rem = int k" by simp
  have "length (compositions (Suc n) M rem) =
          sum_list (map (\<lambda>p. length (compositions n M (rem - p))) [0..rem])"
    using Suc.prems by (simp add: length_concat comp_def min_def)
  also have "\<dots> = sum_list (map (\<lambda>i. length (compositions n M (int k - int i))) [0..<Suc k])"
    unfolding rem upto_as_nats by (simp add: comp_def)
  also have "\<dots> = sum_list (map (\<lambda>i. (n + (k - i)) choose n) [0..<Suc k])"
  proof (rule arg_cong[where f = sum_list], rule map_cong[OF refl])
    fix i assume "i \<in> set [0..<Suc k]"
    then have i: "i \<le> k" by (simp del: upt_Suc)
    then have "0 \<le> int k - int i" "int k - int i \<le> M" using Suc.prems rem by auto
    from Suc.IH[OF this] i show "length (compositions n M (int k - int i)) = (n + (k - i)) choose n"
      by (simp add: nat_diff_distrib')
  qed
  also have "\<dots> = (\<Sum>i<Suc k. (n + (k - i)) choose n)"
    by (simp add: interv_sum_list_conv_sum_set_nat atLeast0LessThan del: upt_Suc)
  also have "\<dots> = (Suc n + k) choose Suc n"
    by (rule choose_column_sum)
  finally show ?case by (simp add: k_def)
qed

lemma generate_photon_outcomes_compositions:
  "0 \<le> N \<Longrightarrow> generate_photon_outcomes N M = Inr (compositions (nat N) M M)"
proof -
  have "(@) ([]::outcome) = (\<lambda>ys. ys)" by (rule ext) simp
  then show "0 \<le> N \<Longrightarrow> generate_photon_outcomes N M = Inr (compositions (nat N) M M)"
    by (simp add: generate_photon_outcomes_def helper_compositions)
qed

text \<open>
  Claim C5: for \<open>numChannels \<ge> 0\<close> and \<open>maxPhotons \<ge> 0\<close> the enumeration returns, without
  an error, a duplicate-free list whose elements are exactly the tuples of length
  \<open>numChannels\<close> with entries in \<open>[0, maxPhotons]\<close> and total at most \<open>maxPhotons\<close>; their
  number is the binomial coefficient \<open>(numChannels + maxPhotons) choose numChannels\<close>; and
  for \<open>numChannels = 0\<close> the result is the single empty tuple.
\<close>

theorem generate_photon_outcomes_enumerates:
  assumes "0 \<le> numChannels" and "0 \<le> maxPhotons"
  shows "\<exists>outcomes. generate_photon_outcomes numChannels maxPhotons = Inr outcomes
           \<and> distinct outcomes
           \<and> set outcomes = {t. length t = nat numChannels
                                  \<and> (\<forall>x\<in>set t. 0 \<le> x \<and> x \<le> maxPhotons)
                                  \<and> sum_list t \<le> maxPhotons}
           \<and> length outcomes = (nat numChannels + nat maxPhotons) choose nat numChannels
           \<and> (numChannels = 0 \<longrightarrow> outcomes = [[]])"
  using assms
  by (simp add: generate_photon_outcomes_compositions compositions_distinct compositions_set
                compositions_length)

theorem generate_photon_outcomes_enumerates_witness:
  "\<exists>outcomes. generate_photon_outcomes 3 2 = Inr outcomes
      \<and> distinct outcomes \<and> length outcomes = 10
      \<and> [0, 1, 1] \<in> set outcomes \<and> [1, 1, 1] \<notin> set outcomes"
proof -
  have c: "(5::nat) choose 3 = 10" by (simp add: numeral_eq_Suc)
  show ?thesis
    using generate_photon_outcomes_enumerates [of 3 2] c by auto
qed

section \<open>Normalisation and its zero-sum case\<close>

lemma finite_dict_Finite:
  "finite_dict (map (\<lambda>(key, value). (key, Finite (f value))) p) =
     Some (map (\<lambda>(key, value). (key, f value)) p)"
  by (induction p) auto

lemma finite_dict_first:
  "finite_value value = None \<Longrightarrow> finite_dict ((key, value) # d) = None"
  by simp

lemma np_truediv_zero: "finite_value (np_truediv a 0) = None"
  by (simp add: np_truediv_def)

lemma normalizeProbDict_values_nonzero:
  "sum_list (map snd p) \<noteq> 0 \<Longrightarrow>
   finite_dict (normalizeProbDict_values p) =
     Some (map (\<lambda>(key, value). (key, value / sum_list (map snd p))) p)"
proof -
  assume nz: "sum_list (map snd p) \<noteq> 0"
  then have "normalizeProbDict_values p =
               map (\<lambda>(key, value). (key, Finite (value / sum_list (map snd p)))) p"
    by (simp add: normalizeProbDict_values_def np_truediv_def)
  then show ?thesis by (simp only: finite_dict_Finite)
qed

lemma normalizeProbDict_values_zero:
  "p \<noteq> [] \<Longrightarrow> sum_list (map snd p) = 0 \<Longrightarrow> finite_dict (normalizeProbDict_values p) = None"
  by (cases p) (auto simp: normalizeProbDict_values_def np_truediv_zero)

lemma normalizeProbDict_eq:
  "normalizeProbDict p =
     (if p = [] then Inr []
      else if sum_list (map snd p) = 0 then Inl (NonFinite (normalizeProbDict_values p))
      else Inr (map (\<lambda>(key, value). (key, value / sum_list (map snd p))) p))"
proof (cases "p = []")
  case True
  then show ?thesis by (simp add: normalizeProbDict_def normalizeProbDict_values_def)
next
  case False
  show ?thesis
  proof (cases "sum_list (map snd p) = 0")
    case True
    with False show ?thesis
      by (simp add: normalizeProbDict_def normalizeProbDict_values_zero)
  next
    case nz: False
    with False show ?thesis
      by (simp add: normalizeProbDict_def normalizeProbDict_values_nonzero)
  qed
qed





section \<open>Convolution\<close>

lemma dict_get_dict_add:
  "dict_get (dict_add k v d) s 0 = dict_get d s 0 + (if k = s then v else 0)"
  by (auto simp: dict_add_def dict_get_def update_conv' split: option.splits)

lemma keys_dict_add: "fst ` set (dict_add k v d) = insert k (fst ` set d)"
  by (simp add: dict_add_def dom_update)

lemma distinct_dict_add: "distinct (map fst d) \<Longrightarrow> distinct (map fst (dict_add k v d))"
  by (simp add: dict_add_def distinct_update)

lemma sum_update:
  "sum_list (map snd (AList.update k w d)) =
     sum_list (map snd d) + (case map_of d k of None \<Rightarrow> w | Some u \<Rightarrow> w - u)"
  if "distinct (map fst d)" for d :: "('k \<times> real) list"
  using that
proof (induction d)
  case Nil
  then show ?case by simp
next
  case (Cons a d)
  then show ?case
    by (cases a) (auto simp: map_of_eq_None_iff image_iff algebra_simps split: option.splits)
qed

lemma total_dict_add:
  "distinct (map fst d) \<Longrightarrow> sum_list (map snd (dict_add k v d)) = sum_list (map snd d) + v"
  by (simp add: dict_add_def sum_update dict_get_def split: option.splits)

lemma dict_get_accumulate:
  "dict_get (accumulate kvs d) s 0 =
     dict_get d s 0 + sum_list (map (\<lambda>(k, v). if k = s then v else 0) kvs)"
  by (induction kvs arbitrary: d) (auto simp: accumulate_def dict_get_dict_add)

lemma keys_accumulate: "fst ` set (accumulate kvs d) = fst ` set kvs \<union> fst ` set d"
proof (induction kvs arbitrary: d)
  case Nil
  then show ?case by (simp add: accumulate_def)
next
  case (Cons a kvs)
  have "accumulate (a # kvs) d = accumulate kvs (dict_add (fst a) (snd a) d)"
    by (simp add: accumulate_def split_beta)
  then show ?case
    using Cons.IH[of "dict_add (fst a) (snd a) d"] by (simp add: keys_dict_add)
qed

lemma distinct_accumulate:
  "distinct (map fst d) \<Longrightarrow> distinct (map fst (accumulate kvs d))"
  by (induction kvs arbitrary: d) (auto simp: accumulate_def distinct_dict_add)

lemma total_accumulate:
  "distinct (map fst d) \<Longrightarrow>
   sum_list (map snd (accumulate kvs d)) = sum_list (map snd d) + sum_list (map snd kvs)"
  by (induction kvs arbitrary: d) (auto simp: accumulate_def distinct_dict_add total_dict_add)

lemma inner_loop:
  "fold (\<lambda>(outcome2, prob2_value) convolved_prob.
           (let convolved_outcome = map (\<lambda>(x, y). x + y) (zip o1 outcome2) in
            if sum_list convolved_outcome \<le> M then
              AList.update convolved_outcome
                (dict_get convolved_prob convolved_outcome 0 + p1 * prob2_value)
                convolved_prob
            else convolved_prob)) prob2 d
   = accumulate (filter (\<lambda>(s, w). sum_list s \<le> M)
          (map (\<lambda>(o2, p2). (map (\<lambda>(x, y). x + y) (zip o1 o2), p1 * p2)) prob2)) d"
  by (induction prob2 arbitrary: d) (auto simp: accumulate_def dict_add_def Let_def)

lemma accumulate_append: "accumulate (xs @ ys) d = accumulate ys (accumulate xs d)"
  by (simp add: accumulate_def)

lemma convolve_accumulate:
  "convolve_probabilities prob1 prob2 M = accumulate (kept_pairs prob1 prob2 M) []"
proof -
  have "fold (\<lambda>(outcome1, prob1_value) convolved_prob.
        fold (\<lambda>(outcome2, prob2_value) convolved_prob.
           (let convolved_outcome = map (\<lambda>(x, y). x + y) (zip outcome1 outcome2) in
            if sum_list convolved_outcome \<le> M then
              AList.update convolved_outcome
                (dict_get convolved_prob convolved_outcome 0 + prob1_value * prob2_value)
                convolved_prob
            else convolved_prob))
          prob2 convolved_prob) prob1 d = accumulate (kept_pairs prob1 prob2 M) d" for d
  proof (induction prob1 arbitrary: d)
    case Nil
    then show ?case by (simp add: kept_pairs_def accumulate_def)
  next
    case (Cons a prob1)
    obtain o1 p1 where a: "a = (o1, p1)" by (cases a)
    show ?case
      using Cons.IH by (simp add: a inner_loop kept_pairs_def accumulate_append)
  qed
  then show ?thesis by (simp add: convolve_probabilities_def)
qed

lemma filtered_sum:
  "sum_list (map g (filter (\<lambda>(s, w). P s) (map (\<lambda>(o2, p2). (h o2, c * p2)) xs))) =
     sum_list (map (\<lambda>(o2, p2). if P (h o2) then g (h o2, c * p2) else (0::real)) xs)"
  by (induction xs) auto

lemma kept_pairs_sum:
  "sum_list (map g (kept_pairs d1 d2 M)) =
     sum_list (map (\<lambda>(o1, p1). sum_list (map (\<lambda>(o2, p2).
        if sum_list (map2 (+) o1 o2) \<le> M then g (map2 (+) o1 o2, p1 * p2) else (0::real)) d2)) d1)"
proof (induction d1)
  case Nil
  then show ?case by (simp add: kept_pairs_def)
next
  case (Cons a d1)
  obtain o1 p1 where a: "a = (o1, p1)" by (cases a)
  have "kept_pairs (a # d1) d2 M =
          filter (\<lambda>(s, w). sum_list s \<le> M)
            (map (\<lambda>(o2, p2). (map2 (+) o1 o2, p1 * p2)) d2) @ kept_pairs d1 d2 M"
    by (simp add: kept_pairs_def a)
  then show ?case
    using Cons.IH by (simp add: filtered_sum a)
qed

lemma dict_get_Nil: "dict_get [] s dflt = dflt"
  by (simp add: dict_get_def)

lemma kept_pairs_keys:
  "fst ` set (kept_pairs d1 d2 M) =
     {s. sum_list s \<le> M \<and> (\<exists>o1\<in>fst ` set d1. \<exists>o2\<in>fst ` set d2. s = map2 (+) o1 o2)}"
  by (auto simp: kept_pairs_def image_iff split_beta) force+

lemma convolve_lookup:
  "dict_get (convolve_probabilities d1 d2 M) s 0 =
     (if sum_list s \<le> M then
        sum_list (map (\<lambda>(o1, p1). sum_list (map (\<lambda>(o2, p2).
           if map2 (+) o1 o2 = s then p1 * p2 else 0) d2)) d1)
      else 0)"
proof -
  have "dict_get (convolve_probabilities d1 d2 M) s 0 =
          sum_list (map (\<lambda>(o1, p1). sum_list (map (\<lambda>(o2, p2).
            if sum_list (map2 (+) o1 o2) \<le> M then (if map2 (+) o1 o2 = s then p1 * p2 else 0) else 0) d2)) d1)"
    by (simp add: convolve_accumulate dict_get_accumulate dict_get_Nil kept_pairs_sum cong: if_cong)
  also have "\<dots> = sum_list (map (\<lambda>(o1, p1). sum_list (map (\<lambda>(o2, p2).
            if sum_list s \<le> M then (if map2 (+) o1 o2 = s then p1 * p2 else 0) else 0) d2)) d1)"
    by (rule arg_cong[where f = sum_list], rule map_cong[OF refl], clarsimp,
        rule arg_cong[where f = sum_list], rule map_cong[OF refl], auto)
  also have "\<dots> = (if sum_list s \<le> M then
        sum_list (map (\<lambda>(o1, p1). sum_list (map (\<lambda>(o2, p2).
           if map2 (+) o1 o2 = s then p1 * p2 else 0) d2)) d1)
      else 0)"
    by (cases "sum_list s \<le> M") (simp_all add: case_prod_unfold)
  finally show ?thesis .
qed

lemma convolve_keys:
  "fst ` set (convolve_probabilities d1 d2 M) =
     {s. sum_list s \<le> M \<and> (\<exists>o1\<in>fst ` set d1. \<exists>o2\<in>fst ` set d2. s = map2 (+) o1 o2)}"
  by (simp add: convolve_accumulate keys_accumulate kept_pairs_keys)

lemma convolve_distinct: "distinct (map fst (convolve_probabilities d1 d2 M))"
  by (simp add: convolve_accumulate distinct_accumulate)

lemma convolve_total:
  "sum_list (map snd (convolve_probabilities d1 d2 M)) =
     sum_list (map (\<lambda>(o1, p1). sum_list (map (\<lambda>(o2, p2).
        if sum_list (map2 (+) o1 o2) \<le> M then p1 * p2 else 0) d2)) d1)"
  by (simp add: convolve_accumulate total_accumulate kept_pairs_sum cong: if_cong)

text \<open>
  Claim C6: the convolution maps every outcome \<open>s\<close> with total at most \<open>maxPhotons\<close> to the
  sum of \<open>d1[o1] * d2[o2]\<close> over the pairs of items whose element-wise sum is \<open>s\<close> (read
  with \<open>get(s, 0)\<close>: an outcome no pair reaches is absent); its keys are exactly the pair
  sums with total at most \<open>maxPhotons\<close>, so pairs above the cut are discarded; the total
  mass is the sum of the products of the kept pairs, nothing is renormalised; and the
  example of the specification evaluates to 1/2 on (1,) and 1/4 on (0,).
\<close>

theorem convolve_probabilities_pair_sums:
  "dict_get (convolve_probabilities d1 d2 maxPhotons) s 0 =
     (if sum_list s \<le> maxPhotons then
        sum_list (map (\<lambda>(o1, p1). sum_list (map (\<lambda>(o2, p2).
           if map2 (+) o1 o2 = s then p1 * p2 else 0) d2)) d1)
      else 0)
   \<and> fst ` set (convolve_probabilities d1 d2 maxPhotons) =
       {s. sum_list s \<le> maxPhotons \<and> (\<exists>o1\<in>fst ` set d1. \<exists>o2\<in>fst ` set d2. s = map2 (+) o1 o2)}
   \<and> distinct (map fst (convolve_probabilities d1 d2 maxPhotons))
   \<and> sum_list (map snd (convolve_probabilities d1 d2 maxPhotons)) =
       sum_list (map (\<lambda>(o1, p1). sum_list (map (\<lambda>(o2, p2).
          if sum_list (map2 (+) o1 o2) \<le> maxPhotons then p1 * p2 else 0) d2)) d1)
   \<and> convolve_probabilities [([1], 1 / 2), ([0], 1 / 2)] [([1], 1 / 2), ([0], 1 / 2)] 1
       = [([1], 1 / 2), ([0], 1 / 4)]"
proof -
  have "convolve_probabilities [([1], 1 / 2), ([0], 1 / 2)] [([1], 1 / 2), ([0], 1 / 2)] 1
       = [([1], 1 / 2), ([0], 1 / 4)]"
    by (simp add: convolve_probabilities_def dict_get_def)
  then show ?thesis
    using convolve_lookup[of d1 d2 maxPhotons s] convolve_keys[of d1 d2 maxPhotons]
          convolve_distinct[of d1 d2 maxPhotons] convolve_total[of d1 d2 maxPhotons]
    by (intro conjI)
qed

theorem convolve_probabilities_pair_sums_witness:
  "dict_get (convolve_probabilities [([1, 0], 1 / 2), ([0, 1], 1 / 2)] [([0, 0], 1 / 3), ([1, 0], 2 / 3)] 1) [1, 0] 0 = 1 / 6
   \<and> dict_get (convolve_probabilities [([1, 0], 1 / 2), ([0, 1], 1 / 2)] [([0, 0], 1 / 3), ([1, 0], 2 / 3)] 1) [1, 1] 0 = 0
   \<and> sum_list (map snd (convolve_probabilities [([1, 0], 1 / 2), ([0, 1], 1 / 2)] [([0, 0], 1 / 3), ([1, 0], 2 / 3)] 1)) = 1 / 3"
  using convolve_probabilities_pair_sums [of "[([1, 0], 1 / 2), ([0, 1], 1 / 2)]" "[([0, 0], 1 / 3), ([1, 0], 2 / 3)]" 1 "[1, 0]"]
        convolve_probabilities_pair_sums [of "[([1, 0], 1 / 2), ([0, 1], 1 / 2)]" "[([0, 0], 1 / 3), ([1, 0], 2 / 3)]" 1 "[1, 1]"]
  by simp

section \<open>Marginals over the interleaved channels\<close>

lemma slice_from0_step2_length: "length (slice_from0_step2 xs) = (length xs + 1) div 2"
  by (induction xs rule: slice_from0_step2.induct) auto

lemma slice_from1_step2_length: "length (slice_from1_step2 xs) = length xs div 2"
  by (cases xs) (auto simp: slice_from1_step2_def slice_from0_step2_length)

lemma slice_from0_step2_nth:
  "i < length (slice_from0_step2 xs) \<Longrightarrow> slice_from0_step2 xs ! i = xs ! (2 * i)"
proof (induction xs arbitrary: i rule: slice_from0_step2.induct)
  case 1
  then show ?case by simp
next
  case (2 x)
  then show ?case by simp
next
  case (3 x y xs)
  then show ?case by (cases i) auto
qed

lemma slice_from1_step2_nth:
  "i < length (slice_from1_step2 xs) \<Longrightarrow> slice_from1_step2 xs ! i = xs ! (2 * i + 1)"
  by (cases xs) (auto simp: slice_from1_step2_def slice_from0_step2_nth)

lemma traceOverHV_loop_accumulate:
  "traceOverHV_loop pDict =
     (accumulate (map (\<lambda>(key, value). (slice_from0_step2 key, value)) pDict) [],
      accumulate (map (\<lambda>(key, value). (slice_from1_step2 key, value)) pDict) [])"
proof -
  have "fold (\<lambda>(key, value) (H_probabilities, V_probabilities).
        (let H_outcome = slice_from0_step2 key;
             V_outcome = slice_from1_step2 key
         in (AList.update H_outcome (dict_get H_probabilities H_outcome 0 + value) H_probabilities,
             AList.update V_outcome (dict_get V_probabilities V_outcome 0 + value) V_probabilities)))
       pDict (H0, V0) =
     (accumulate (map (\<lambda>(key, value). (slice_from0_step2 key, value)) pDict) H0,
      accumulate (map (\<lambda>(key, value). (slice_from1_step2 key, value)) pDict) V0)" for H0 V0
    by (induction pDict arbitrary: H0 V0) (auto simp: accumulate_def dict_add_def Let_def)
  then show ?thesis by (simp add: traceOverHV_loop_def)
qed

lemma scaled_lookup:
  "dict_get (map (\<lambda>(key, value). (key, value / t)) p) h 0 = dict_get p h 0 / (t::real)"
  by (induction p) (auto simp: dict_get_def)

lemma scaled_total:
  "sum_list (map snd (map (\<lambda>(key, value). (key, value / t)) p)) = sum_list (map snd p) / (t::real)"
  by (induction p) (auto simp: add_divide_distrib)

lemma scaled_keys: "map fst (map (\<lambda>(key, value). (key, value / t)) p) = map fst p"
  by (induction p) auto

lemma normalizeProbDict_nonzero:
  "sum_list (map snd p) \<noteq> 0 \<Longrightarrow>
   normalizeProbDict p = Inr (map (\<lambda>(key, value). (key, value / sum_list (map snd p))) p)"
  by (auto simp: normalizeProbDict_eq)

lemma marginal_total:
  "sum_list (map snd (accumulate (map (\<lambda>(key, value). (f key, value)) d) [])) = sum_list (map snd d)"
  by (simp add: total_accumulate comp_def case_prod_unfold)

lemma marginal_lookup:
  "dict_get (accumulate (map (\<lambda>(key, value). (f key, value)) d) []) h 0 =
     sum_list (map (\<lambda>(key, value). if f key = h then value else 0) d)"
  by (simp add: dict_get_accumulate dict_get_Nil comp_def case_prod_unfold cong: if_cong)

lemma marginal_keys:
  "fst ` set (accumulate (map (\<lambda>(key, value). (f key, value)) d) []) = f ` fst ` set d"
  by (force simp: keys_accumulate image_iff)

text \<open>
  Claim C8: for a distribution with positive total weight over outcomes of one length
  \<open>n\<close>, \<open>traceOverHV\<close> returns two dictionaries; their keys are the even-position and the
  odd-position sub-tuples of the outcomes (\<open>slice_from0_step2_nth\<close> and
  \<open>slice_from1_step2_nth\<close> say which entries those are); each weight is the sum of the
  weights of the outcomes with that projection, divided by the total weight, so both
  dictionaries sum to 1; and the sub-tuples have lengths \<open>\<lceil>n/2\<rceil>\<close> and \<open>\<lfloor>n/2\<rfloor>\<close>.
\<close>

theorem traceOverHV_marginals:
  assumes "0 < sum_list (map snd d)" and "\<forall>key\<in>fst ` set d. length key = n"
  shows "\<exists>H V. traceOverHV d = Inr (H, V)
      \<and> fst ` set H = slice_from0_step2 ` fst ` set d
      \<and> fst ` set V = slice_from1_step2 ` fst ` set d
      \<and> distinct (map fst H) \<and> distinct (map fst V)
      \<and> (\<forall>h. dict_get H h 0 =
            sum_list (map (\<lambda>(key, value). if slice_from0_step2 key = h then value else 0) d)
              / sum_list (map snd d))
      \<and> (\<forall>v. dict_get V v 0 =
            sum_list (map (\<lambda>(key, value). if slice_from1_step2 key = v then value else 0) d)
              / sum_list (map snd d))
      \<and> sum_list (map snd H) = 1 \<and> sum_list (map snd V) = 1
      \<and> (\<forall>h\<in>fst ` set H. length h = (n + 1) div 2)
      \<and> (\<forall>v\<in>fst ` set V. length v = n div 2)"
proof -
  define t where "t = sum_list (map snd d)"
  define H0 where "H0 = accumulate (map (\<lambda>(key, value). (slice_from0_step2 key, value)) d) []"
  define V0 where "V0 = accumulate (map (\<lambda>(key, value). (slice_from1_step2 key, value)) d) []"
  define H where "H = map (\<lambda>(key, value). (key, value / t)) H0"
  define V where "V = map (\<lambda>(key, value). (key, value / t)) V0"
  have t: "t \<noteq> 0" using assms(1) by (simp add: t_def)
  have tH: "sum_list (map snd H0) = t" and tV: "sum_list (map snd V0) = t"
    by (simp_all add: H0_def V0_def marginal_total t_def)
  have run: "traceOverHV d = Inr (H, V)"
    using t by (simp add: traceOverHV_def traceOverHV_loop_accumulate H0_def[symmetric]
        V0_def[symmetric] normalizeProbDict_values_nonzero tH tV H_def V_def)
  have kH: "fst ` set H = slice_from0_step2 ` fst ` set d"
    using scaled_keys[of t H0] marginal_keys[of slice_from0_step2 d]
    by (metis H0_def H_def set_map)
  have kV: "fst ` set V = slice_from1_step2 ` fst ` set d"
    using scaled_keys[of t V0] marginal_keys[of slice_from1_step2 d]
    by (metis V0_def V_def set_map)
  have dH: "distinct (map fst H)" and dV: "distinct (map fst V)"
    by (simp_all add: H_def V_def scaled_keys H0_def V0_def distinct_accumulate del: map_map)
  have lH: "\<forall>h. dict_get H h 0 =
            sum_list (map (\<lambda>(key, value). if slice_from0_step2 key = h then value else 0) d) / t"
    by (simp add: H_def scaled_lookup H0_def marginal_lookup)
  have lV: "\<forall>v. dict_get V v 0 =
            sum_list (map (\<lambda>(key, value). if slice_from1_step2 key = v then value else 0) d) / t"
    by (simp add: V_def scaled_lookup V0_def marginal_lookup)
  have sH: "sum_list (map snd H) = 1" and sV: "sum_list (map snd V) = 1"
    using t by (simp_all add: H_def V_def scaled_total tH tV del: map_map)
  have lenH: "\<forall>h\<in>fst ` set H. length h = (n + 1) div 2"
    using assms(2) by (auto simp: kH slice_from0_step2_length)
  have lenV: "\<forall>v\<in>fst ` set V. length v = n div 2"
    using assms(2) by (auto simp: kV slice_from1_step2_length)
  from run kH kV dH dV lH lV sH sV lenH lenV show ?thesis
    unfolding t_def by blast
qed

theorem traceOverHV_marginals_witness:
  "\<exists>H V. traceOverHV [([1, 0, 2], 1 / 2), ([0, 1, 2], 1 / 4), ([1, 1, 2], 1 / 4)] = Inr (H, V)
      \<and> dict_get H [1, 2] 0 = 3 / 4 \<and> dict_get H [0, 2] 0 = 1 / 4
      \<and> dict_get V [1] 0 = 1 / 2 \<and> dict_get V [0] 0 = 1 / 2
      \<and> sum_list (map snd H) = 1 \<and> sum_list (map snd V) = 1
      \<and> fst ` set H = {[1, 2], [0, 2]} \<and> fst ` set V = {[0], [1]}"
proof -
  let ?d = "[([1, 0, 2], 1 / 2), ([0, 1, 2], 1 / 4), ([1, 1, 2], 1 / 4)] :: prob_dict"
  have h1: "0 < sum_list (map snd ?d)" by simp
  have h2: "\<forall>key\<in>fst ` set ?d. length key = 3" by simp
  have "\<exists>H V. traceOverHV ?d = Inr (H, V)
      \<and> fst ` set H = slice_from0_step2 ` fst ` set ?d
      \<and> fst ` set V = slice_from1_step2 ` fst ` set ?d
      \<and> distinct (map fst H) \<and> distinct (map fst V)
      \<and> (\<forall>h. dict_get H h 0 =
            sum_list (map (\<lambda>(key, value). if slice_from0_step2 key = h then value else 0) ?d)
              / sum_list (map snd ?d))
      \<and> (\<forall>v. dict_get V v 0 =
            sum_list (map (\<lambda>(key, value). if slice_from1_step2 key = v then value else 0) ?d)
              / sum_list (map snd ?d))
      \<and> sum_list (map snd H) = 1 \<and> sum_list (map snd V) = 1
      \<and> (\<forall>h\<in>fst ` set H. length h = (3 + 1) div 2)
      \<and> (\<forall>v\<in>fst ` set V. length v = 3 div 2)"
    by (rule traceOverHV_marginals[OF h1 h2])
  then obtain H V where
    run: "traceOverHV ?d = Inr (H, V)"
    and keys: "fst ` set H = slice_from0_step2 ` fst ` set ?d"
              "fst ` set V = slice_from1_step2 ` fst ` set ?d"
    and look: "\<forall>h. dict_get H h 0 =
            sum_list (map (\<lambda>(key, value). if slice_from0_step2 key = h then value else 0) ?d)
              / sum_list (map snd ?d)"
          "\<forall>v. dict_get V v 0 =
            sum_list (map (\<lambda>(key, value). if slice_from1_step2 key = v then value else 0) ?d)
              / sum_list (map snd ?d)"
    and tot: "sum_list (map snd H) = 1" "sum_list (map snd V) = 1"
    by (elim exE conjE)
  have a: "dict_get H [1, 2] 0 = 3 / 4" "dict_get H [0, 2] 0 = 1 / 4"
       "dict_get V [1] 0 = 1 / 2" "dict_get V [0] 0 = 1 / 2"
    by (simp_all add: look slice_from1_step2_def)
  have b: "fst ` set H = {[1, 2], [0, 2]}" "fst ` set V = {[0], [1]}"
    by (auto simp: keys slice_from1_step2_def)
  show ?thesis
    by (rule exI[of _ H], rule exI[of _ V]) (simp only: run a b tot simp_thms)
qed

section \<open>The walk circuit follows the parity state machine\<close>

lemma py_range_nat: "py_range (int n) = map int [0..<n]"
proof (cases n)
  case 0
  then show ?thesis by (simp add: py_range_def)
next
  case (Suc k)
  then show ?thesis by (simp add: py_range_def upto_as_nats del: upt_Suc)
qed

lemma py_range_down_nat: "py_range_down (int s - 1) = rev (map int [0..<s])"
proof (cases s)
  case 0
  then show ?thesis by (simp add: py_range_down_def)
next
  case (Suc k)
  then show ?thesis by (simp add: py_range_down_def upto_as_nats del: upt_Suc)
qed

lemma degrees_values:
  "degrees (- 45) = - pi / 4" "degrees 45 = pi / 4" "degrees 90 = pi / 2"
  by (simp_all add: degrees_def)

lemma walk_step_spec: "walk_step gamma (int s) prog = prog @ spec_step gamma s"
proof (cases "odd s")
  case True
  then have m: "int s mod 2 = 1" by presburger
  have "walk_step gamma (int s) prog =
          fold (\<lambda>k p. p @ [BSgate (- pi / 4) 0 (2 * k + 1) (2 * k + 2),
                              BSgate (- pi / 4) 0 (2 * k + 3) (2 * k + 4),
                              BSgate (pi / 2) gamma (2 * k + 2) (2 * k + 4),
                              BSgate (pi / 4) 0 (2 * k + 1) (2 * k + 2),
                              BSgate (pi / 4) 0 (2 * k + 3) (2 * k + 4)])
                (rev (map int [0..<s])) prog"
    by (simp add: walk_step_def m py_range_down_nat)
  also have "\<dots> = prog @ concat (map (\<lambda>k. [BSgate (- pi / 4) 0 (2 * k + 1) (2 * k + 2),
                              BSgate (- pi / 4) 0 (2 * k + 3) (2 * k + 4),
                              BSgate (pi / 2) gamma (2 * k + 2) (2 * k + 4),
                              BSgate (pi / 4) 0 (2 * k + 1) (2 * k + 2),
                              BSgate (pi / 4) 0 (2 * k + 3) (2 * k + 4)]) (rev (map int [0..<s])))"
    by (rule fold_appending) simp
  also have "concat (map (\<lambda>k. [BSgate (- pi / 4) 0 (2 * k + 1) (2 * k + 2),
                              BSgate (- pi / 4) 0 (2 * k + 3) (2 * k + 4),
                              BSgate (pi / 2) gamma (2 * k + 2) (2 * k + 4),
                              BSgate (pi / 4) 0 (2 * k + 1) (2 * k + 2),
                              BSgate (pi / 4) 0 (2 * k + 3) (2 * k + 4)]) (rev (map int [0..<s])))
            = spec_step gamma s"
    using True
    by (simp add: spec_step_def spec_basis_change_def spec_time_shift_def degrees_values
        rev_map[symmetric] comp_def del: rev_map)
  finally show ?thesis .
next
  case False
  then have m: "int s mod 2 = 0" by presburger
  have "walk_step gamma (int s) prog =
          fold (\<lambda>k p. p @ [BSgate (pi / 2) gamma (2 * k + 2) (2 * k + 4)])
               (rev (map int [0..<s])) prog"
    by (simp add: walk_step_def m py_range_down_nat)
  also have "\<dots> = prog @ concat (map (\<lambda>k. [BSgate (pi / 2) gamma (2 * k + 2) (2 * k + 4)])
                                  (rev (map int [0..<s])))"
    by (rule fold_appending) simp
  also have "concat (map (\<lambda>k. [BSgate (pi / 2) gamma (2 * k + 2) (2 * k + 4)])
                                  (rev (map int [0..<s]))) = spec_step gamma s"
  proof -
    have "spec_time_shift gamma = (\<lambda>k. [BSgate (pi / 2) gamma (2 * int k + 2) (2 * int k + 4)])"
      by (rule ext) (simp add: spec_time_shift_def degrees_values)
    with False show ?thesis
      by (simp add: spec_step_def rev_map[symmetric] comp_def del: rev_map)
  qed
  finally show ?thesis .
qed

lemma walk_steps_spec:
  "fold (walk_step gamma) (map int ss) prog = prog @ concat (map (spec_step gamma) ss)"
  by (induction ss arbitrary: prog) (simp_all add: walk_step_spec)

lemma walk_program_spec:
  "walk_program (int n) r alpha eta gamma n_noise etaFock
           = spec_walk_topology n r alpha eta gamma n_noise etaFock"
proof -
  have r1: "py_range (int n + 1) = map int [0..<Suc n]"
    using py_range_nat[of "Suc n"] by (simp add: add.commute)
  have r2: "py_range (2 * int n + 2 + 1) = map int [0..<2 * n + 3]"
    using py_range_nat[of "2 * n + 3"] by (simp add: algebra_simps)
  have steps: "fold (walk_step gamma) (map int [0..<Suc n])
                 [S2gate r 0 0 1, LossChannel etaFock 1, Coherent alpha 2]
               = spec_initialization r alpha etaFock @ concat (map (spec_step gamma) [0..<Suc n])"
    by (simp only: walk_steps_spec spec_initialization_def)
  have hwp: "(if int n mod 2 = 1 then
                fold (\<lambda>k p. p @ [BSgate (- pi / 4) 0 (2 * k + 1) (2 * k + 2)])
                     (map int [0..<Suc n]) prog
              else prog) = prog @ spec_terminal_correction n" for prog
  proof (cases "odd n")
    case True
    then have m: "int n mod 2 = 1" by presburger
    have "fold (\<lambda>k p. p @ [BSgate (- pi / 4) 0 (2 * k + 1) (2 * k + 2)]) (map int [0..<Suc n]) prog
          = prog @ concat (map (\<lambda>k. [BSgate (- pi / 4) 0 (2 * k + 1) (2 * k + 2)]) (map int [0..<Suc n]))"
      by (rule fold_appending) simp
    then show ?thesis using True
      by (simp add: m spec_terminal_correction_def degrees_values comp_def del: upt_Suc)
  next
    case False
    then have m: "int n mod 2 \<noteq> 1" by presburger
    with False show ?thesis by (simp add: spec_terminal_correction_def)
  qed
  have loss: "fold (\<lambda>i p. p @ [ThermalLossChannel eta n_noise i]) (map int [0..<2 * n + 3]) prog
              = prog @ spec_closing_loss eta n_noise n" for prog
  proof -
    have "fold (\<lambda>i p. p @ [ThermalLossChannel eta n_noise i]) (map int [0..<2 * n + 3]) prog
          = prog @ concat (map (\<lambda>i. [ThermalLossChannel eta n_noise i]) (map int [0..<2 * n + 3]))"
      by (rule fold_appending) simp
    then show ?thesis by (simp add: spec_closing_loss_def comp_def del: upt_Suc)
  qed
  show ?thesis
    unfolding walk_program_def Let_def r1 r2 steps hwp loss spec_walk_topology_def
    by simp
qed



section \<open>Building the program\<close>

lemma spec_walk_topology_in_register:
  "list_all (in_register (2 * n + 3)) (spec_walk_topology n r alpha eta gamma n_noise etaFock)"
proof -
  have step: "in_register (2 * n + 3) g" if "s < Suc n" "g \<in> set (spec_step gamma s)" for s g
    using that
    by (auto simp: spec_step_def spec_basis_change_def spec_time_shift_def in_register_def
        split: if_splits)
  have "list_all (in_register (2 * n + 3)) (concat (map (spec_step gamma) [0..<Suc n]))"
    using step by (auto simp: list_all_iff simp del: upt_Suc)
  moreover have "list_all (in_register (2 * n + 3)) (spec_initialization r alpha etaFock)"
    by (simp add: spec_initialization_def in_register_def)
  moreover have "list_all (in_register (2 * n + 3)) (spec_terminal_correction n)"
    by (auto simp: spec_terminal_correction_def in_register_def list_all_iff)
  moreover have "list_all (in_register (2 * n + 3)) (spec_closing_loss eta n_noise n)"
    by (auto simp: spec_closing_loss_def in_register_def list_all_iff)
  ultimately show ?thesis by (simp add: spec_walk_topology_def)
qed

lemma build_program_nonneg:
  "0 \<le> nSteps \<Longrightarrow>
   build_program nSteps r alpha eta gamma n_noise etaFock
     = Inr (walk_program nSteps r alpha eta gamma n_noise etaFock)"
proof -
  assume n: "0 \<le> nSteps"
  have size: "nat (2 * nSteps + 2 + 1) = 2 * nat nSteps + 3"
                "nat (3 + 2 * nSteps) = 2 * nat nSteps + 3"
    using n by (simp_all add: nat_add_distrib nat_mult_distrib)
  have "walk_program nSteps r alpha eta gamma n_noise etaFock
          = spec_walk_topology (nat nSteps) r alpha eta gamma n_noise etaFock"
    using walk_program_spec[of "nat nSteps" r alpha eta gamma n_noise etaFock] n by simp
  then have "list_all (in_register (2 * nat nSteps + 3))
               (walk_program nSteps r alpha eta gamma n_noise etaFock)"
    by (simp add: spec_walk_topology_in_register)
  then show ?thesis
    using n by (simp add: build_program_def sf_Program_def Let_def size)
qed

lemma build_program_negative:
  "nSteps < 0 \<Longrightarrow>
   build_program nSteps r alpha eta gamma n_noise etaFock
     = Inl (if nSteps = - 1 then IndexError else ValueError)"
proof (cases "nSteps = - 1")
  case True
  then show ?thesis
    by (simp add: build_program_def sf_Program_def walk_program_def py_range_def
        in_register_def)
next
  case False
  moreover assume "nSteps < 0"
  ultimately show ?thesis by (simp add: build_program_def sf_Program_def)
qed

section \<open>The output of \<open>computeWalkOutput\<close>\<close>

lemmas run_simps = walk_program_def walk_step_def py_range_def py_range_down_def Let_def upto.simps
  build_program_def sf_Program_def in_register_def
  computeWalkOutput_def computeWalkOutputWithMM_def generate_photon_outcomes_def
  stub_engine_def stub_state_open_def stub_state_blocked_def failing_engine_def np_sqrt_def
  convolve_probabilities_def normalizeProbDict_def normalizeProbDict_values_def np_truediv_def
  dict_get_def generate_outcomes_helper.simps

lemma update_fresh: "k \<notin> fst ` set d \<Longrightarrow> AList.update k v d = d @ [(k, v)]"
  by (induction d) auto

lemma fill_distinct:
  "distinct ls \<Longrightarrow> set ls \<inter> fst ` set acc = {} \<Longrightarrow>
   fold (\<lambda>l pn. AList.update l (f l) pn) ls acc = acc @ map (\<lambda>l. (l, f l)) ls"
proof (induction ls arbitrary: acc)
  case Nil
  then show ?case by simp
next
  case (Cons l ls)
  from Cons.prems have fresh: "l \<notin> fst ` set acc" by auto
  have "set ls \<inter> fst ` set (acc @ [(l, f l)]) = {}"
    using Cons.prems by auto
  with Cons.IH[of "acc @ [(l, f l)]"] Cons.prems show ?case
    by (simp add: update_fresh[OF fresh])
qed

lemma fill_by_index:
  "fold (\<lambda>k pn. AList.update (ls ! k) (f (ls ! k)) pn) [0..<length ls] acc =
     fold (\<lambda>l pn. AList.update l (f l) pn) ls acc"
proof -
  have "fold (\<lambda>l. AList.update l (f l)) (map ((!) ls) [0..<length ls]) =
        fold (\<lambda>k. AList.update (ls ! k) (f (ls ! k))) [0..<length ls]"
    by (simp add: fold_map comp_def)
  moreover have "map ((!) ls) [0..<length ls] = ls" by (rule map_nth)
  ultimately show ?thesis by simp
qed

lemma fill_labels:
  "distinct ls \<Longrightarrow>
   fold (\<lambda>k pn. AList.update (ls ! k) (state (1 # ls ! k)) pn) [0..<length ls] [] =
     map (\<lambda>l. (l, state (1 # l))) ls"
  using fill_by_index[of ls "\<lambda>l. state (1 # l)" "[]"]
        fill_distinct[of ls "[]" "\<lambda>l. state (1 # l)"]
  by simp

lemma computeWalkOutput_eq:
  assumes "0 \<le> nSteps"
  shows "computeWalkOutput eng nSteps r alphaSq eta gamma max_photons n_noise etaFock =
     (case eng (2 * nSteps + 3) (walk_program nSteps r (np_sqrt alphaSq) eta gamma n_noise etaFock) of
        Inl e \<Rightarrow> Inl (Raised e)
      | Inr state \<Rightarrow>
          Inr (map (\<lambda>l. (l, state (1 # l)))
                 (compositions (nat (2 * nSteps + 2)) max_photons max_photons)))"
proof -
  have g: "generate_photon_outcomes (2 * nSteps + 2) max_photons =
             Inr (compositions (nat (2 * nSteps + 2)) max_photons max_photons)"
    using assms by (intro generate_photon_outcomes_compositions) simp
  have s: "2 * nSteps + 2 + 1 = 2 * nSteps + 3" by simp
  show ?thesis
    using assms
    by (simp add: computeWalkOutput_def Let_def g s build_program_nonneg
        fill_labels[OF compositions_distinct] split: sum.splits)
qed

text \<open>
  Claim C9: whenever the simulator returns a state for the circuit of a walk of
  \<open>nSteps \<ge> 0\<close> steps, \<open>computeWalkOutput\<close> returns the dictionary whose keys are, in order,
  the outcomes enumerated for \<open>2 * nSteps + 2\<close> channels and \<open>max_photons\<close>, each mapped to
  the state's probability of the label with a 1 prepended for the herald mode. The values
  are those probabilities as they come: nothing is divided out.
\<close>

theorem computeWalkOutput_queries_heralded_labels:
  assumes "0 \<le> nSteps"
    and "eng (2 * nSteps + 3)
            (walk_program nSteps r (np_sqrt alphaSq) eta gamma n_noise etaFock) = Inr state"
  shows "\<exists>allLabels. generate_photon_outcomes (2 * nSteps + 2) max_photons = Inr allLabels
      \<and> computeWalkOutput eng nSteps r alphaSq eta gamma max_photons n_noise etaFock
          = Inr (map (\<lambda>label. (label, state (1 # label))) allLabels)"
  using assms
  by (simp add: computeWalkOutput_eq generate_photon_outcomes_compositions)

theorem computeWalkOutput_queries_heralded_labels_witness:
  "\<exists>allLabels. allLabels = [[0, 0], [0, 1], [0, 2], [1, 0], [1, 1], [2, 0]]
      \<and> computeWalkOutput stub_engine 0 (7 / 100) (2 / 25) (7 / 100) 0 2 (1 / 200000) 1
          = Inr (map (\<lambda>label. (label, stub_state_open (1 # label))) allLabels)"
proof -
  have h: "stub_engine (2 * 0 + 3)
             (walk_program 0 (7 / 100) (np_sqrt (2 / 25)) (7 / 100) 0 (1 / 200000) 1)
           = Inr stub_state_open"
    by (simp add: run_simps)
  have g: "generate_photon_outcomes (2 * 0 + 2) 2 = Inr [[0, 0], [0, 1], [0, 2], [1, 0], [1, 1], [2, 0]]"
    by (simp add: run_simps)
  from computeWalkOutput_queries_heralded_labels
         [where nSteps = 0 and eng = stub_engine and state = stub_state_open
            and max_photons = 2, OF _ h]
  show ?thesis
    unfolding g by simp
qed

section \<open>Which parameters are checked\<close>

text \<open>
  Claim C3, as stated: a negative \<open>nSteps\<close>, \<open>max_photons < 0\<close> or an overlap outside
  \<open>[0, 1]\<close> is rejected with a configuration error before the simulator is called. With
  \<open>max_photons = -1\<close> both functions return the empty distribution when the simulator
  succeeds and the simulator's own exception when it fails; with \<open>mm = 2\<close> the mismatch
  function likewise returns the simulator's exception or a distribution. In both cases the
  simulator has been called and nothing was rejected.
\<close>

theorem invalid_parameters_not_rejected:
  "computeWalkOutput stub_engine 0 (7 / 100) (2 / 25) (7 / 100) 0 (- 1) (1 / 200000) 1 = Inr []
   \<and> computeWalkOutputWithMM stub_engine 0 (7 / 100) (2 / 25) (7 / 100) 0 (7 / 10) (- 1) (1 / 200000)
       = Inr []
   \<and> computeWalkOutput failing_engine 0 (7 / 100) (2 / 25) (7 / 100) 0 (- 1) (1 / 200000) 1
       = Inl (Raised (BackendError ''simulator''))
   \<and> computeWalkOutputWithMM failing_engine 0 (7 / 100) (2 / 25) (7 / 100) 0 2 2 (1 / 200000)
       = Inl (Raised (BackendError ''simulator''))
   \<and> computeWalkOutputWithMM stub_engine 0 (7 / 100) (2 / 25) (7 / 100) 0 2 2 (1 / 200000)
       = Inr [([0, 0], 1 / 2), ([0, 1], 1 / 4), ([0, 2], 0), ([1, 0], 1 / 4), ([1, 1], 0), ([2, 0], 0)]"
  by (simp add: run_simps)

lemma compositions_negative: "M < 0 \<Longrightarrow> compositions n M M = []"
  by (cases n) (auto simp: upto.simps)

lemma convolve_Nil: "convolve_probabilities [] d M = []"
  by (simp add: convolve_probabilities_def)

lemma computeWalkOutput_negative:
  "nSteps < 0 \<Longrightarrow>
   computeWalkOutput eng nSteps r alphaSq eta gamma max_photons n_noise etaFock
     = Inl (Raised (if nSteps = - 1 then IndexError else ValueError))"
  by (simp add: computeWalkOutput_def Let_def build_program_negative)

lemma computeWalkOutputWithMM_eq:
  assumes "0 \<le> nSteps"
  shows "computeWalkOutputWithMM eng nSteps r alphaSq eta gamma mm max_photons n_noise =
           (case eng (2 * nSteps + 3)
                   (walk_program nSteps r (np_sqrt (mm * alphaSq)) eta gamma n_noise 1) of
              Inl e \<Rightarrow> Inl (Raised e)
            | Inr state_para \<Rightarrow>
                (case eng (2 * nSteps + 3)
                        (walk_program nSteps r (np_sqrt ((1 - mm) * alphaSq)) eta gamma n_noise 0) of
                   Inl e \<Rightarrow> Inl (Raised e)
                 | Inr state_perp \<Rightarrow>
                     normalizeProbDict
                       (convolve_probabilities
                          (map (\<lambda>l. (l, state_para (1 # l)))
                             (compositions (nat (2 * nSteps + 2)) max_photons max_photons))
                          (map (\<lambda>l. (l, state_perp (1 # l)))
                             (compositions (nat (2 * nSteps + 2)) max_photons max_photons)) 2)))"
  using assms
  by (simp add: computeWalkOutputWithMM_def computeWalkOutput_eq split: sum.splits)

text \<open>
  Claim C3, amended: a negative \<open>nSteps\<close> is refused before the simulator is called, by an
  exception of the program construction and not by a configuration check: IndexError at
  \<open>q[1]\<close> for \<open>nSteps = -1\<close>, the ValueError of \<open>sf.Program\<close> for \<open>nSteps < -1\<close>;
  \<open>computeWalkOutputWithMM\<close> passes it on. For \<open>nSteps \<ge> 0\<close> nothing is checked: for every
  \<open>max_photons\<close> and every \<open>mm\<close>, in \<open>[0, 1]\<close> or not, the simulator is called with the
  amplitudes \<open>np.sqrt(mm * alphaSq)\<close> and \<open>np.sqrt((1 - mm) * alphaSq)\<close> as they are, the
  results are built from its answers, and every exception either function raises is one
  the simulator raised; for \<open>max_photons < 0\<close> the enumeration is empty, so both functions
  return the empty distribution when the simulator succeeds.
\<close>

theorem negative_nSteps_alone_is_refused:
  "(nSteps < 0 \<longrightarrow>
      computeWalkOutput eng nSteps r alphaSq eta gamma max_photons n_noise etaFock
        = Inl (Raised (if nSteps = - 1 then IndexError else ValueError))
    \<and> computeWalkOutputWithMM eng nSteps r alphaSq eta gamma mm max_photons n_noise
        = Inl (Raised (if nSteps = - 1 then IndexError else ValueError)))
   \<and> (0 \<le> nSteps \<longrightarrow>
        (\<exists>allLabels.
            generate_photon_outcomes (2 * nSteps + 2) max_photons = Inr allLabels
          \<and> (max_photons < 0 \<longrightarrow> allLabels = [])
          \<and> computeWalkOutput eng nSteps r alphaSq eta gamma max_photons n_noise etaFock =
              (case eng (2 * nSteps + 3)
                      (walk_program nSteps r (np_sqrt alphaSq) eta gamma n_noise etaFock) of
                 Inl e \<Rightarrow> Inl (Raised e)
               | Inr state \<Rightarrow> Inr (map (\<lambda>l. (l, state (1 # l))) allLabels))
          \<and> computeWalkOutputWithMM eng nSteps r alphaSq eta gamma mm max_photons n_noise =
              (case eng (2 * nSteps + 3)
                      (walk_program nSteps r (np_sqrt (mm * alphaSq)) eta gamma n_noise 1) of
                 Inl e \<Rightarrow> Inl (Raised e)
               | Inr state_para \<Rightarrow>
                   (case eng (2 * nSteps + 3)
                           (walk_program nSteps r (np_sqrt ((1 - mm) * alphaSq)) eta gamma n_noise 0) of
                      Inl e \<Rightarrow> Inl (Raised e)
                    | Inr state_perp \<Rightarrow>
                        normalizeProbDict
                          (convolve_probabilities
                             (map (\<lambda>l. (l, state_para (1 # l))) allLabels)
                             (map (\<lambda>l. (l, state_perp (1 # l))) allLabels) 2))))
        \<and> (\<forall>e. computeWalkOutputWithMM eng nSteps r alphaSq eta gamma mm max_photons n_noise
                  = Inl (Raised e) \<longrightarrow>
               eng (2 * nSteps + 3)
                   (walk_program nSteps r (np_sqrt (mm * alphaSq)) eta gamma n_noise 1) = Inl e
             \<or> eng (2 * nSteps + 3)
                   (walk_program nSteps r (np_sqrt ((1 - mm) * alphaSq)) eta gamma n_noise 0) = Inl e))"
proof (intro conjI impI)
  assume "nSteps < 0"
  then show "computeWalkOutput eng nSteps r alphaSq eta gamma max_photons n_noise etaFock
        = Inl (Raised (if nSteps = - 1 then IndexError else ValueError))"
    by (rule computeWalkOutput_negative)
next
  assume "nSteps < 0"
  then show "computeWalkOutputWithMM eng nSteps r alphaSq eta gamma mm max_photons n_noise
        = Inl (Raised (if nSteps = - 1 then IndexError else ValueError))"
    by (simp add: computeWalkOutputWithMM_def computeWalkOutput_negative)
next
  assume n: "0 \<le> nSteps"
  define L where "L = compositions (nat (2 * nSteps + 2)) max_photons max_photons"
  have g: "generate_photon_outcomes (2 * nSteps + 2) max_photons = Inr L"
    using n by (simp add: L_def generate_photon_outcomes_compositions)
  have e: "max_photons < 0 \<longrightarrow> L = []"
    by (simp add: L_def compositions_negative)
  from g e show "\<exists>allLabels.
            generate_photon_outcomes (2 * nSteps + 2) max_photons = Inr allLabels
          \<and> (max_photons < 0 \<longrightarrow> allLabels = [])
          \<and> computeWalkOutput eng nSteps r alphaSq eta gamma max_photons n_noise etaFock =
              (case eng (2 * nSteps + 3)
                      (walk_program nSteps r (np_sqrt alphaSq) eta gamma n_noise etaFock) of
                 Inl e \<Rightarrow> Inl (Raised e)
               | Inr state \<Rightarrow> Inr (map (\<lambda>l. (l, state (1 # l))) allLabels))
          \<and> computeWalkOutputWithMM eng nSteps r alphaSq eta gamma mm max_photons n_noise =
              (case eng (2 * nSteps + 3)
                      (walk_program nSteps r (np_sqrt (mm * alphaSq)) eta gamma n_noise 1) of
                 Inl e \<Rightarrow> Inl (Raised e)
               | Inr state_para \<Rightarrow>
                   (case eng (2 * nSteps + 3)
                           (walk_program nSteps r (np_sqrt ((1 - mm) * alphaSq)) eta gamma n_noise 0) of
                      Inl e \<Rightarrow> Inl (Raised e)
                    | Inr state_perp \<Rightarrow>
                        normalizeProbDict
                          (convolve_probabilities
                             (map (\<lambda>l. (l, state_para (1 # l))) allLabels)
                             (map (\<lambda>l. (l, state_perp (1 # l))) allLabels) 2)))"
    using computeWalkOutput_eq[OF n, of eng r alphaSq eta gamma max_photons n_noise etaFock]
          computeWalkOutputWithMM_eq[OF n, of eng r alphaSq eta gamma mm max_photons n_noise]
    unfolding L_def[symmetric] by (intro exI[of _ L]) simp
next
  assume n: "0 \<le> nSteps"
  show "\<forall>e. computeWalkOutputWithMM eng nSteps r alphaSq eta gamma mm max_photons n_noise
                  = Inl (Raised e) \<longrightarrow>
               eng (2 * nSteps + 3)
                   (walk_program nSteps r (np_sqrt (mm * alphaSq)) eta gamma n_noise 1) = Inl e
             \<or> eng (2 * nSteps + 3)
                   (walk_program nSteps r (np_sqrt ((1 - mm) * alphaSq)) eta gamma n_noise 0) = Inl e"
    by (auto simp: computeWalkOutputWithMM_eq[OF n] normalizeProbDict_eq
        split: sum.splits if_splits)
qed

theorem negative_nSteps_alone_is_refused_witness:
  "computeWalkOutput stub_engine (- 1) (7 / 100) (2 / 25) (7 / 100) 0 2 (1 / 200000) 1
     = Inl (Raised IndexError)
   \<and> computeWalkOutputWithMM failing_engine (- 2) (7 / 100) (2 / 25) (7 / 100) 0 (7 / 10) 2 (1 / 200000)
     = Inl (Raised ValueError)
   \<and> computeWalkOutput stub_engine 1 (7 / 100) (2 / 25) (7 / 100) 0 (- 2) (1 / 200000) 1 = Inr []
   \<and> computeWalkOutputWithMM stub_engine 1 (7 / 100) (2 / 25) (7 / 100) 0 2 (- 2) (1 / 200000)
     = Inr []"
proof -
  have a: "computeWalkOutput stub_engine (- 1) (7 / 100) (2 / 25) (7 / 100) 0 2 (1 / 200000) 1
     = Inl (Raised IndexError)"
    using negative_nSteps_alone_is_refused
            [of "- 1" stub_engine "7 / 100" "2 / 25" "7 / 100" 0 2 "1 / 200000" 1 "7 / 10"]
    by simp
  have b: "computeWalkOutputWithMM failing_engine (- 2) (7 / 100) (2 / 25) (7 / 100) 0 (7 / 10) 2 (1 / 200000)
     = Inl (Raised ValueError)"
    using negative_nSteps_alone_is_refused
            [of "- 2" failing_engine "7 / 100" "2 / 25" "7 / 100" 0 2 "1 / 200000" 1 "7 / 10"]
    by simp
  have c: "computeWalkOutput stub_engine 1 (7 / 100) (2 / 25) (7 / 100) 0 (- 2) (1 / 200000) 1 = Inr []
     \<and> computeWalkOutputWithMM stub_engine 1 (7 / 100) (2 / 25) (7 / 100) 0 2 (- 2) (1 / 200000)
       = Inr []"
    using negative_nSteps_alone_is_refused
            [of 1 stub_engine "7 / 100" "2 / 25" "7 / 100" 0 "- 2" "1 / 200000" 1 2]
    by (auto simp: stub_engine_def convolve_Nil normalizeProbDict_eq)
  from a b c show ?thesis by simp
qed

section \<open>The cut of the mismatch convolution\<close>

lemma normalizeProbDict_keys:
  "normalizeProbDict p = Inr q \<Longrightarrow> map fst q = map fst p"
  by (auto simp: normalizeProbDict_eq scaled_keys split: if_splits simp del: map_map)

text \<open>
  Claim C10: \<open>computeWalkOutputWithMM\<close> convolves its two branches with the default cut 2
  of \<open>convolve_probabilities\<close>, whatever \<open>max_photons\<close> the caller gave: the result is the
  normalisation of that convolution, whose keys are the pair sums of total at most 2, and
  every distribution it returns holds only labels of total at most 2, so none with a total
  in \<open>(2, max_photons]\<close>.
\<close>

theorem computeWalkOutputWithMM_cut_at_two:
  assumes "computeWalkOutput eng nSteps r (mm * alphaSq) eta gamma max_photons n_noise 1 = Inr pn_para"
    and "computeWalkOutput eng nSteps r ((1 - mm) * alphaSq) eta gamma max_photons n_noise 0 = Inr pn_perp"
  shows "computeWalkOutputWithMM eng nSteps r alphaSq eta gamma mm max_photons n_noise
           = normalizeProbDict (convolve_probabilities pn_para pn_perp 2)
       \<and> fst ` set (convolve_probabilities pn_para pn_perp 2) =
           {s. sum_list s \<le> 2 \<and> (\<exists>o1\<in>fst ` set pn_para. \<exists>o2\<in>fst ` set pn_perp. s = map2 (+) o1 o2)}
       \<and> (\<forall>pn_final. computeWalkOutputWithMM eng nSteps r alphaSq eta gamma mm max_photons n_noise
              = Inr pn_final \<longrightarrow> (\<forall>label\<in>fst ` set pn_final. sum_list label \<le> 2))"
proof -
  have run: "computeWalkOutputWithMM eng nSteps r alphaSq eta gamma mm max_photons n_noise
           = normalizeProbDict (convolve_probabilities pn_para pn_perp 2)"
    by (simp add: computeWalkOutputWithMM_def assms)
  have "\<forall>label\<in>fst ` set pn_final. sum_list label \<le> 2"
    if "normalizeProbDict (convolve_probabilities pn_para pn_perp 2) = Inr pn_final" for pn_final
  proof -
    from normalizeProbDict_keys[OF that]
    have "fst ` set pn_final = fst ` set (convolve_probabilities pn_para pn_perp 2)"
      by (metis set_map)
    then show ?thesis by (simp add: convolve_keys)
  qed
  with run show ?thesis by (simp add: convolve_keys)
qed

theorem computeWalkOutputWithMM_cut_at_two_witness:
  "\<exists>pn_final. computeWalkOutputWithMM stub_engine 0 (7 / 100) (2 / 25) (7 / 100) 0 (1 / 2) 3 (1 / 200000)
        = Inr pn_final
      \<and> [0, 1] \<in> fst ` set pn_final \<and> [0, 3] \<notin> fst ` set pn_final
      \<and> [1, 2] \<notin> fst ` set pn_final"
proof -
  have para: "computeWalkOutput stub_engine 0 (7 / 100) (1 / 2 * (2 / 25)) (7 / 100) 0 3 (1 / 200000) 1
      = Inr [([0, 0], 1 / 4), ([0, 1], 1 / 8), ([0, 2], 0), ([0, 3], 0),
             ([1, 0], 1 / 8), ([1, 1], 0), ([1, 2], 0), ([2, 0], 0), ([2, 1], 0), ([3, 0], 0)]"
    by (simp add: run_simps)
  have perp: "computeWalkOutput stub_engine 0 (7 / 100) ((1 - 1 / 2) * (2 / 25)) (7 / 100) 0 3 (1 / 200000) 0
      = Inr [([0, 0], 1 / 2), ([0, 1], 0), ([0, 2], 0), ([0, 3], 0), ([1, 0], 0),
             ([1, 1], 0), ([1, 2], 0), ([2, 0], 0), ([2, 1], 0), ([3, 0], 0)]"
    by (simp add: run_simps)
  have final: "computeWalkOutputWithMM stub_engine 0 (7 / 100) (2 / 25) (7 / 100) 0 (1 / 2) 3 (1 / 200000)
      = Inr [([0, 0], 1 / 2), ([0, 1], 1 / 4), ([0, 2], 0), ([1, 0], 1 / 4), ([1, 1], 0), ([2, 0], 0)]"
    by (simp add: run_simps)
  from computeWalkOutputWithMM_cut_at_two [OF para perp] final
  have cut: "\<forall>label\<in>fst ` set [([0, 0], 1 / 2), ([0, 1], 1 / 4), ([0, 2], 0), ([1, 0], 1 / 4),
                 ([1, 1], 0), ([2, 0], 0 :: real)]. sum_list label \<le> (2 :: int)"
    by simp
  have "[0, 3 :: int] \<notin> fst ` set [([0, 0], 1 / 2), ([0, 1], 1 / 4), ([0, 2], 0), ([1, 0], 1 / 4),
                 ([1, 1], 0), ([2, 0], 0 :: real)]"
       "[1, 2 :: int] \<notin> fst ` set [([0, 0], 1 / 2), ([0, 1], 1 / 4), ([0, 2], 0), ([1, 0], 1 / 4),
                 ([1, 1], 0), ([2, 0], 0 :: real)]"
    using cut by fastforce+
  then show ?thesis using final by simp
qed

section \<open>Full overlap\<close>

text \<open>
  Claim C1, as stated: with \<open>mm = 1\<close> the mismatch function returns the distribution of
  \<open>computeWalkOutput\<close>. On the stand-in simulator it returns the normalised weights 1/2,
  1/4, 1/4, while \<open>computeWalkOutput\<close> returns the weights 1/4, 1/8, 1/8, which still carry
  the probability of the herald click.
\<close>

theorem full_overlap_differs_from_ideal_walk:
  "computeWalkOutputWithMM stub_engine 0 (7 / 100) (2 / 25) (7 / 100) 0 1 2 (1 / 200000)
     = Inr [([0, 0], 1 / 2), ([0, 1], 1 / 4), ([0, 2], 0), ([1, 0], 1 / 4), ([1, 1], 0), ([2, 0], 0)]
   \<and> computeWalkOutput stub_engine 0 (7 / 100) (2 / 25) (7 / 100) 0 2 (1 / 200000) 1
     = Inr [([0, 0], 1 / 4), ([0, 1], 1 / 8), ([0, 2], 0), ([1, 0], 1 / 8), ([1, 1], 0), ([2, 0], 0)]
   \<and> computeWalkOutputWithMM stub_engine 0 (7 / 100) (2 / 25) (7 / 100) 0 1 2 (1 / 200000)
     \<noteq> computeWalkOutput stub_engine 0 (7 / 100) (2 / 25) (7 / 100) 0 2 (1 / 200000) 1"
  by (simp add: run_simps)

text \<open>
  Two facts that do not depend on what the simulator answers. Whatever
  \<open>computeWalkOutputWithMM\<close> returns sums to 1 unless it is empty, so it can equal an output
  of \<open>computeWalkOutput\<close> only if the heralded probabilities of the enumerated labels sum to
  exactly 1; and for \<open>max_photons > 2\<close> it never equals one, since \<open>computeWalkOutput\<close>
  keeps a label of total \<open>max_photons\<close> that the cut at 2 removes.
\<close>

lemma sum_vacuum: "sum_list (replicate n (0::int)) = 0"
  by (induction n) auto

lemma table_keys: "fst ` set (map (\<lambda>l. (l, f l)) ls) = set ls"
  by force

lemma normalizeProbDict_total:
  "normalizeProbDict p = Inr q \<Longrightarrow> q \<noteq> [] \<Longrightarrow> sum_list (map snd q) = 1"
  by (auto simp: normalizeProbDict_eq scaled_total split: if_splits simp del: map_map)

lemma computeWalkOutputWithMM_total:
  "computeWalkOutputWithMM eng nSteps r alphaSq eta gamma mm max_photons n_noise = Inr pn
   \<Longrightarrow> pn \<noteq> [] \<Longrightarrow> sum_list (map snd pn) = 1"
  by (auto simp: computeWalkOutputWithMM_def split: sum.splits dest: normalizeProbDict_total)

lemma mismatch_equals_walk_only_if_unit_mass:
  assumes "computeWalkOutputWithMM eng nSteps r alphaSq eta gamma mm max_photons n_noise
             = computeWalkOutput eng nSteps r alphaSq' eta gamma max_photons n_noise etaFock"
    and "computeWalkOutput eng nSteps r alphaSq' eta gamma max_photons n_noise etaFock = Inr pn"
    and "pn \<noteq> []"
  shows "sum_list (map snd pn) = 1"
  using assms computeWalkOutputWithMM_total by metis

lemma cut_label_enumerated:
  "2 < M \<Longrightarrow> M # replicate (Suc n) 0 \<in> set (compositions (Suc (Suc n)) M M)"
  unfolding compositions_set by (simp add: sum_vacuum)

lemma mismatch_differs_above_cut:
  assumes "0 \<le> nSteps" and "2 < max_photons"
    and "eng (2 * nSteps + 3)
           (walk_program nSteps r (np_sqrt alphaSq') eta gamma n_noise etaFock) = Inr state"
  shows "computeWalkOutputWithMM eng nSteps r alphaSq eta gamma mm max_photons n_noise
           \<noteq> computeWalkOutput eng nSteps r alphaSq' eta gamma max_photons n_noise etaFock"
proof
  assume eq: "computeWalkOutputWithMM eng nSteps r alphaSq eta gamma mm max_photons n_noise
           = computeWalkOutput eng nSteps r alphaSq' eta gamma max_photons n_noise etaFock"
  define n where "n = nat (2 * nSteps)"
  have n: "nat (2 * nSteps + 2) = Suc (Suc n)" using assms(1) by (simp add: n_def)
  define pn where "pn = map (\<lambda>l. (l, state (1 # l))) (compositions (Suc (Suc n)) max_photons max_photons)"
  have run: "computeWalkOutput eng nSteps r alphaSq' eta gamma max_photons n_noise etaFock = Inr pn"
    using assms(1,3) by (simp add: computeWalkOutput_eq n pn_def)
  have "max_photons # replicate (Suc n) 0 \<in> fst ` set pn"
    unfolding pn_def table_keys by (rule cut_label_enumerated[OF assms(2)])
  moreover have "\<forall>label\<in>fst ` set pn. sum_list label \<le> 2"
  proof -
    from eq run obtain pn_para pn_perp where
      "normalizeProbDict (convolve_probabilities pn_para pn_perp 2) = Inr pn"
      by (auto simp: computeWalkOutputWithMM_def split: sum.splits)
    from normalizeProbDict_keys[OF this]
    have "fst ` set pn = fst ` set (convolve_probabilities pn_para pn_perp 2)"
      by (metis set_map)
    then show ?thesis by (simp add: convolve_keys)
  qed
  ultimately have "sum_list (max_photons # replicate (Suc n) 0) \<le> 2" by blast
  with assms(2) show False by (simp add: sum_vacuum)
qed

lemma sum_indicator_distinct:
  "distinct xs \<Longrightarrow>
   sum_list (map (\<lambda>x. if x = a then f x else (0::real)) xs) = (if a \<in> set xs then f a else 0)"
  by (induction xs) auto

lemma add_vacuum: "length l = n \<Longrightarrow> map2 (+) l (replicate n (0::int)) = l"
  by (induction l arbitrary: n) auto

lemma map_of_dict_get:
  "map_of d k = (if k \<in> fst ` set d then Some (dict_get d k 0) else None)"
proof (cases "map_of d k")
  case None
  then show ?thesis by (simp add: map_of_eq_None_iff)
next
  case (Some v)
  then have "(k, v) \<in> set d" by (rule map_of_SomeD)
  then have "k \<in> fst ` set d" by force
  with Some show ?thesis by (simp add: dict_get_def)
qed

lemma inner_vacuum_sum:
  assumes "distinct labels" and "replicate n 0 \<in> set labels"
    and "\<forall>l\<in>set labels. l \<noteq> replicate n 0 \<longrightarrow> sq l = 0"
  shows "sum_list (map (\<lambda>(o2, p2). if P o2 then c * p2 else (0::real)) (map (\<lambda>l. (l, sq l)) labels))
           = (if P (replicate n 0) then c * sq (replicate n 0) else 0)"
proof -
  have "sum_list (map (\<lambda>(o2, p2). if P o2 then c * p2 else 0) (map (\<lambda>l. (l, sq l)) labels))
        = sum_list (map (\<lambda>l. if l = replicate n 0 then (if P l then c * sq l else 0) else 0) labels)"
    using assms(3)
    by (simp add: comp_def) (rule arg_cong[where f = sum_list], rule map_cong[OF refl], auto)
  also have "\<dots> = (if P (replicate n 0) then c * sq (replicate n 0) else 0)"
    using assms(1,2) by (simp add: sum_indicator_distinct)
  finally show ?thesis .
qed

lemma convolve_with_vacuum_lookup:
  assumes "distinct labels" and "\<forall>l\<in>set labels. length l = n"
    and "replicate n 0 \<in> set labels"
    and "\<forall>l\<in>set labels. l \<noteq> replicate n 0 \<longrightarrow> sq l = 0"
  shows "dict_get (convolve_probabilities (map (\<lambda>l. (l, sp l)) labels)
                                         (map (\<lambda>l. (l, sq l)) labels) M) s 0
           = (if sum_list s \<le> M \<and> s \<in> set labels then sp s * sq (replicate n 0) else 0)"
proof -
  have "sum_list (map (\<lambda>(o1, p1). sum_list (map (\<lambda>(o2, p2).
           if map2 (+) o1 o2 = s then p1 * p2 else 0) (map (\<lambda>l. (l, sq l)) labels)))
             (map (\<lambda>l. (l, sp l)) labels))
        = sum_list (map (\<lambda>l. if l = s then sp l * sq (replicate n 0) else 0) labels)"
  proof (simp add: comp_def, rule arg_cong[where f = sum_list], rule map_cong[OF refl])
    fix l assume l: "l \<in> set labels"
    with assms(2) have len: "length l = n" by simp
    have "sum_list (map (\<lambda>(o2, p2). if map2 (+) l o2 = s then sp l * p2 else 0)
                      (map (\<lambda>l. (l, sq l)) labels))
          = (if map2 (+) l (replicate n 0) = s then sp l * sq (replicate n 0) else 0)"
      by (rule inner_vacuum_sum[OF assms(1,3,4), where P = "\<lambda>o2. map2 (+) l o2 = s"])
    then show "(\<Sum>x\<leftarrow>labels. if map2 (+) l x = s then sp l * sq x else 0)
               = (if l = s then sp l * sq (replicate n 0) else 0)"
      by (simp add: add_vacuum[OF len] comp_def)
  qed
  then show ?thesis
    using assms(1) by (simp add: convolve_lookup sum_indicator_distinct)
qed

lemma convolve_with_vacuum_total:
  assumes "distinct labels" and "\<forall>l\<in>set labels. length l = n \<and> sum_list l \<le> M"
    and "replicate n 0 \<in> set labels"
    and "\<forall>l\<in>set labels. l \<noteq> replicate n 0 \<longrightarrow> sq l = 0"
  shows "sum_list (map snd (convolve_probabilities (map (\<lambda>l. (l, sp l)) labels)
                                                   (map (\<lambda>l. (l, sq l)) labels) M))
           = sum_list (map sp labels) * sq (replicate n 0)"
proof -
  have "sum_list (map (\<lambda>(o1, p1). sum_list (map (\<lambda>(o2, p2).
           if sum_list (map2 (+) o1 o2) \<le> M then p1 * p2 else 0) (map (\<lambda>l. (l, sq l)) labels)))
             (map (\<lambda>l. (l, sp l)) labels))
        = sum_list (map (\<lambda>l. sp l * sq (replicate n 0)) labels)"
  proof (simp add: comp_def, rule arg_cong[where f = sum_list], rule map_cong[OF refl])
    fix l assume l: "l \<in> set labels"
    with assms(2) have len: "length l = n" and le: "sum_list l \<le> M" by simp_all
    have "sum_list (map (\<lambda>(o2, p2). if sum_list (map2 (+) l o2) \<le> M then sp l * p2 else 0)
                      (map (\<lambda>l. (l, sq l)) labels))
          = (if sum_list (map2 (+) l (replicate n 0)) \<le> M then sp l * sq (replicate n 0) else 0)"
      by (rule inner_vacuum_sum[OF assms(1,3,4), where P = "\<lambda>o2. sum_list (map2 (+) l o2) \<le> M"])
    then show "(\<Sum>x\<leftarrow>labels. if sum_list (map2 (+) l x) \<le> M then sp l * sq x else 0)
               = sp l * sq (replicate n 0)"
      by (simp add: add_vacuum[OF len] le comp_def)
  qed
  then show ?thesis
    by (simp add: convolve_total sum_list_mult_const)
qed

lemma entry_le_sum:
  "\<forall>y\<in>set ys. (0::int) \<le> y \<Longrightarrow> x \<in> set ys \<Longrightarrow> x \<le> sum_list ys"
proof (induction ys)
  case Nil
  then show ?case by simp
next
  case (Cons y ys)
  have "0 \<le> sum_list ys" using Cons.prems(1) by (simp add: sum_list_nonneg)
  with Cons show ?case by auto
qed

lemma labels_closed_under_kept_sums:
  assumes "0 \<le> M"
  shows "{s. sum_list s \<le> M \<and> (\<exists>o1\<in>set (compositions n M M). \<exists>o2\<in>set (compositions n M M).
              s = map2 (+) o1 o2)} = set (compositions n M M)"
proof (rule set_eqI, rule iffI)
  fix s assume "s \<in> {s. sum_list s \<le> M \<and> (\<exists>o1\<in>set (compositions n M M).
                  \<exists>o2\<in>set (compositions n M M). s = map2 (+) o1 o2)}"
  then obtain o1 o2 where le: "sum_list s \<le> M" and s: "s = map2 (+) o1 o2"
    and o1: "length o1 = n" "\<forall>y\<in>set o1. 0 \<le> y"
    and o2: "length o2 = n" "\<forall>y\<in>set o2. 0 \<le> y"
    by (auto simp: compositions_set)
  have len: "length s = n" using s o1(1) o2(1) by simp
  have nonneg: "\<forall>y\<in>set s. 0 \<le> y"
    unfolding s using o1(2) o2(2) by (auto simp: set_zip)
  have "\<forall>y\<in>set s. y \<le> M"
    using entry_le_sum[OF nonneg] le by force
  with len nonneg le show "s \<in> set (compositions n M M)"
    by (simp add: compositions_set)
next
  fix s assume s: "s \<in> set (compositions n M M)"
  then have len: "length s = n" and le: "sum_list s \<le> M" by (simp_all add: compositions_set)
  have z: "replicate n 0 \<in> set (compositions n M M)"
    using assms by (simp add: compositions_set sum_vacuum)
  have "s = map2 (+) s (replicate n 0)" using add_vacuum[OF len] by simp
  with s z le show "s \<in> {s. sum_list s \<le> M \<and> (\<exists>o1\<in>set (compositions n M M).
                  \<exists>o2\<in>set (compositions n M M). s = map2 (+) o1 o2)}"
    by blast
qed

lemma dict_get_table:
  "dict_get (map (\<lambda>l. (l, f l)) ls) s 0 = (if s \<in> set ls then f s else (0::real))"
  by (induction ls) (auto simp: dict_get_def)

lemma scaled_key_set: "fst ` set (map (\<lambda>(key, value). (key, value / t)) p) = fst ` set p"
  using scaled_keys[of t p] by (metis set_map)

text \<open>
  Claim C1, amended: let \<open>nSteps \<ge> 0\<close> and \<open>max_photons = 2\<close>, and let the simulator succeed on
  both branches. If the blocked branch with coherent intensity 0 gives the herald click
  with vacuum in every detection channel a probability other than 0 and every other
  enumerated outcome the probability 0, and the weights of the ideal walk do not sum to 0,
  then \<open>computeWalkOutputWithMM\<close> with \<open>mm = 1\<close> returns a dictionary with the keys and
  values of \<open>normalizeProbDict\<close> applied to the output of \<open>computeWalkOutput\<close>.
\<close>

theorem full_overlap_is_normalised_ideal_walk:
  assumes steps: "0 \<le> nSteps"
    and labels: "generate_photon_outcomes (2 * nSteps + 2) 2 = Inr allLabels"
    and para: "eng (2 * nSteps + 3)
                  (walk_program nSteps r (np_sqrt alphaSq) eta gamma n_noise 1) = Inr state_para"
    and perp: "eng (2 * nSteps + 3)
                  (walk_program nSteps r (np_sqrt 0) eta gamma n_noise 0) = Inr state_perp"
    and dark: "\<forall>l\<in>set allLabels. l \<noteq> replicate (nat (2 * nSteps + 2)) 0
                  \<longrightarrow> state_perp (1 # l) = 0"
    and herald: "state_perp (1 # replicate (nat (2 * nSteps + 2)) 0) \<noteq> 0"
    and mass: "sum_list (map (\<lambda>l. state_para (1 # l)) allLabels) \<noteq> 0"
  shows "\<exists>pn_ideal pn_norm pn_mm.
           computeWalkOutput eng nSteps r alphaSq eta gamma 2 n_noise 1 = Inr pn_ideal
         \<and> normalizeProbDict pn_ideal = Inr pn_norm
         \<and> computeWalkOutputWithMM eng nSteps r alphaSq eta gamma 1 2 n_noise = Inr pn_mm
         \<and> map_of pn_mm = map_of pn_norm"
proof -
  define n where "n = nat (2 * nSteps + 2)"
  define sp where "sp = (\<lambda>l. state_para (1 # l))"
  define sq where "sq = (\<lambda>l. state_perp (1 # l))"
  define T where "T = sum_list (map sp allLabels)"
  define w where "w = sq (replicate n 0)"
  define pn_ideal where "pn_ideal = map (\<lambda>l. (l, sp l)) allLabels"
  define pn_perp where "pn_perp = map (\<lambda>l. (l, sq l)) allLabels"
  define conv where "conv = convolve_probabilities pn_ideal pn_perp 2"
  define pn_norm where "pn_norm = map (\<lambda>(key, value). (key, value / T)) pn_ideal"
  define pn_mm where "pn_mm = map (\<lambda>(key, value). (key, value / (T * w))) conv"
  have L: "allLabels = compositions n 2 2"
    using labels steps by (simp add: generate_photon_outcomes_compositions n_def)
  have dist: "distinct allLabels" by (simp add: L compositions_distinct)
  have shape: "\<forall>l\<in>set allLabels. length l = n \<and> sum_list l \<le> 2"
    by (simp add: L compositions_set)
  then have lens: "\<forall>l\<in>set allLabels. length l = n" by simp
  have vac: "replicate n 0 \<in> set allLabels" by (simp add: L compositions_set sum_vacuum)
  have dark': "\<forall>l\<in>set allLabels. l \<noteq> replicate n 0 \<longrightarrow> sq l = 0"
    using dark by (simp add: sq_def n_def)
  have T: "T \<noteq> 0" using mass by (simp add: T_def sp_def)
  have w: "w \<noteq> 0" using herald by (simp add: w_def sq_def n_def)
  have ideal: "computeWalkOutput eng nSteps r alphaSq eta gamma 2 n_noise 1 = Inr pn_ideal"
    using steps para by (simp add: computeWalkOutput_eq pn_ideal_def sp_def L n_def)
  have perp_run: "computeWalkOutput eng nSteps r 0 eta gamma 2 n_noise 0 = Inr pn_perp"
    using steps perp by (simp add: computeWalkOutput_eq pn_perp_def sq_def L n_def)
  have tot_ideal: "sum_list (map snd pn_ideal) = T"
    by (simp add: pn_ideal_def T_def comp_def)
  have norm: "normalizeProbDict pn_ideal = Inr pn_norm"
    using T by (simp add: normalizeProbDict_nonzero tot_ideal pn_norm_def)
  have tot_conv: "sum_list (map snd conv) = T * w"
    unfolding conv_def pn_ideal_def pn_perp_def T_def w_def
    by (rule convolve_with_vacuum_total[OF dist shape vac dark'])
  have mm: "computeWalkOutputWithMM eng nSteps r alphaSq eta gamma 1 2 n_noise = Inr pn_mm"
    using T w
    by (simp add: computeWalkOutputWithMM_def ideal perp_run conv_def[symmetric]
        normalizeProbDict_nonzero tot_conv pn_mm_def)
  have keys_conv: "fst ` set conv = set allLabels"
    unfolding conv_def pn_ideal_def pn_perp_def
    by (simp only: convolve_keys table_keys L labels_closed_under_kept_sums[of 2 n, simplified])
  have look_conv: "dict_get conv s 0 = (if s \<in> set allLabels then sp s * w else 0)" for s
    unfolding conv_def pn_ideal_def pn_perp_def w_def
    using convolve_with_vacuum_lookup[OF dist lens vac dark', of sp 2 s] shape by auto
  have k_norm: "fst ` set pn_norm = set allLabels"
    unfolding pn_norm_def scaled_key_set pn_ideal_def by (rule table_keys)
  have k_mm: "fst ` set pn_mm = set allLabels"
    unfolding pn_mm_def scaled_key_set by (rule keys_conv)
  have "map_of pn_mm s = map_of pn_norm s" for s
  proof (cases "s \<in> set allLabels")
    case True
    have "dict_get pn_mm s 0 = sp s / T"
      using True T w by (simp add: pn_mm_def scaled_lookup look_conv)
    moreover have "dict_get pn_norm s 0 = sp s / T"
      using True by (simp add: pn_norm_def scaled_lookup pn_ideal_def dict_get_table del: map_map)
    ultimately show ?thesis using True by (simp add: map_of_dict_get k_norm k_mm)
  next
    case False
    then show ?thesis by (simp add: map_of_dict_get k_norm k_mm)
  qed
  then have "map_of pn_mm = map_of pn_norm" by (rule ext)
  with ideal norm mm show ?thesis by blast
qed

theorem full_overlap_is_normalised_ideal_walk_witness:
  "\<exists>pn_ideal pn_norm pn_mm.
       computeWalkOutput stub_engine 0 (7 / 100) (2 / 25) (7 / 100) 0 2 (1 / 200000) 1 = Inr pn_ideal
     \<and> normalizeProbDict pn_ideal = Inr pn_norm
     \<and> computeWalkOutputWithMM stub_engine 0 (7 / 100) (2 / 25) (7 / 100) 0 1 2 (1 / 200000) = Inr pn_mm
     \<and> map_of pn_mm = map_of pn_norm"
proof -
  have labels: "generate_photon_outcomes (2 * 0 + 2) 2
                  = Inr [[0, 0], [0, 1], [0, 2], [1, 0], [1, 1], [2, 0]]"
    by (simp add: run_simps)
  have para: "stub_engine (2 * 0 + 3)
                (walk_program 0 (7 / 100) (np_sqrt (2 / 25)) (7 / 100) 0 (1 / 200000) 1)
              = Inr stub_state_open"
    by (simp add: run_simps)
  have perp: "stub_engine (2 * 0 + 3)
                (walk_program 0 (7 / 100) (np_sqrt 0) (7 / 100) 0 (1 / 200000) 0)
              = Inr stub_state_blocked"
    by (simp add: run_simps)
  have dark: "\<forall>l\<in>set [[0, 0], [0, 1], [0, 2], [1, 0], [1, 1], [2, 0]].
                l \<noteq> replicate (nat (2 * 0 + 2)) 0 \<longrightarrow> stub_state_blocked (1 # l) = 0"
    by (simp add: stub_state_blocked_def numeral_2_eq_2)
  have herald: "stub_state_blocked (1 # replicate (nat (2 * 0 + 2)) 0) \<noteq> 0"
    by (simp add: stub_state_blocked_def numeral_2_eq_2)
  have mass: "sum_list (map (\<lambda>l. stub_state_open (1 # l))
                 [[0, 0], [0, 1], [0, 2], [1, 0], [1, 1], [2, 0]]) \<noteq> 0"
    by (simp add: stub_state_open_def)
  show ?thesis
    by (rule full_overlap_is_normalised_ideal_walk
          [where nSteps = 0 and eng = stub_engine and state_para = stub_state_open
             and state_perp = stub_state_blocked
             and allLabels = "[[0, 0], [0, 1], [0, 2], [1, 0], [1, 1], [2, 0]]",
           OF _ labels para perp dark herald mass]) simp
qed

section \<open>Zero overlap\<close>

text \<open>
  Claim C2, as stated: with \<open>mm = 0\<close> the mismatch function returns the distribution of
  \<open>computeWalkOutput\<close> with the heralded photon blocked. On the stand-in simulator the
  blocked walk has weight on the vacuum outcome only, while the mismatch function puts 1/4
  on each single-photon outcome: the walk of the heralded photon alone is convolved in.
\<close>

theorem zero_overlap_differs_from_perpendicular_branch:
  "computeWalkOutputWithMM stub_engine 0 (7 / 100) (2 / 25) (7 / 100) 0 0 2 (1 / 200000)
     = Inr [([0, 0], 1 / 2), ([0, 1], 1 / 4), ([0, 2], 0), ([1, 0], 1 / 4), ([1, 1], 0), ([2, 0], 0)]
   \<and> computeWalkOutput stub_engine 0 (7 / 100) (2 / 25) (7 / 100) 0 2 (1 / 200000) 0
     = Inr [([0, 0], 1 / 2), ([0, 1], 0), ([0, 2], 0), ([1, 0], 0), ([1, 1], 0), ([2, 0], 0)]
   \<and> computeWalkOutputWithMM stub_engine 0 (7 / 100) (2 / 25) (7 / 100) 0 0 2 (1 / 200000)
     \<noteq> computeWalkOutput stub_engine 0 (7 / 100) (2 / 25) (7 / 100) 0 2 (1 / 200000) 0"
  by (simp add: run_simps)

lemma table_sum:
  "sum_list (map (\<lambda>(o1, p1). F o1 p1) (map (\<lambda>l. (l, f l)) ls)) = sum_list (map (\<lambda>l. F l (f l)) ls)"
  by (simp add: comp_def)

text \<open>
  Claim C2, amended: let \<open>nSteps \<ge> 0\<close> and let the simulator succeed on both branches. With
  \<open>mm = 0\<close>, \<open>computeWalkOutputWithMM\<close> returns the normalisation of the convolution, cut at
  total 2, of the walk of the heralded photon alone (coherent intensity 0, photon present)
  with the perpendicular branch (full intensity, photon blocked), provided the kept
  products do not sum to 0: the weight of an outcome \<open>s\<close> of total at most 2 is the sum of
  the products over the pairs of labels adding up to \<open>s\<close>, divided by the sum of all kept
  products. The perpendicular branch alone is what \<open>computeWalkOutput\<close> returns with the
  photon blocked.
\<close>

theorem zero_overlap_convolves_both_branches:
  assumes steps: "0 \<le> nSteps"
    and labels: "generate_photon_outcomes (2 * nSteps + 2) max_photons = Inr allLabels"
    and photon: "eng (2 * nSteps + 3)
                  (walk_program nSteps r (np_sqrt 0) eta gamma n_noise 1) = Inr state_photon"
    and perp: "eng (2 * nSteps + 3)
                  (walk_program nSteps r (np_sqrt alphaSq) eta gamma n_noise 0) = Inr state_perp"
    and mass: "sum_list (map (\<lambda>o1. sum_list (map (\<lambda>o2.
                 if sum_list (map2 (+) o1 o2) \<le> 2
                 then state_photon (1 # o1) * state_perp (1 # o2) else 0) allLabels)) allLabels) \<noteq> 0"
  shows "\<exists>pn_mm.
           computeWalkOutput eng nSteps r alphaSq eta gamma max_photons n_noise 0
             = Inr (map (\<lambda>l. (l, state_perp (1 # l))) allLabels)
         \<and> computeWalkOutputWithMM eng nSteps r alphaSq eta gamma 0 max_photons n_noise = Inr pn_mm
         \<and> normalizeProbDict
              (convolve_probabilities (map (\<lambda>l. (l, state_photon (1 # l))) allLabels)
                                      (map (\<lambda>l. (l, state_perp (1 # l))) allLabels) 2) = Inr pn_mm
         \<and> (\<forall>s. dict_get pn_mm s 0 =
               (if sum_list s \<le> 2 then
                  sum_list (map (\<lambda>o1. sum_list (map (\<lambda>o2.
                    if map2 (+) o1 o2 = s
                    then state_photon (1 # o1) * state_perp (1 # o2) else 0) allLabels)) allLabels)
                else 0)
               / sum_list (map (\<lambda>o1. sum_list (map (\<lambda>o2.
                    if sum_list (map2 (+) o1 o2) \<le> 2
                    then state_photon (1 # o1) * state_perp (1 # o2) else 0) allLabels)) allLabels))"
proof -
  define ph where "ph = (\<lambda>l. state_photon (1 # l))"
  define pp where "pp = (\<lambda>l. state_perp (1 # l))"
  define conv where "conv = convolve_probabilities (map (\<lambda>l. (l, ph l)) allLabels)
                                                    (map (\<lambda>l. (l, pp l)) allLabels) 2"
  define Z where "Z = sum_list (map (\<lambda>o1. sum_list (map (\<lambda>o2.
                 if sum_list (map2 (+) o1 o2) \<le> 2 then ph o1 * pp o2 else 0) allLabels)) allLabels)"
  define pn_mm where "pn_mm = map (\<lambda>(key, value). (key, value / Z)) conv"
  have L: "allLabels = compositions (nat (2 * nSteps + 2)) max_photons max_photons"
    using labels steps by (simp add: generate_photon_outcomes_compositions)
  have Z: "Z \<noteq> 0" using mass unfolding Z_def ph_def pp_def .
  have run_photon: "computeWalkOutput eng nSteps r 0 eta gamma max_photons n_noise 1
                      = Inr (map (\<lambda>l. (l, ph l)) allLabels)"
    using steps photon by (simp add: computeWalkOutput_eq ph_def L)
  have run_perp: "computeWalkOutput eng nSteps r alphaSq eta gamma max_photons n_noise 0
                      = Inr (map (\<lambda>l. (l, pp l)) allLabels)"
    using steps perp by (simp add: computeWalkOutput_eq pp_def L)
  have total: "sum_list (map snd conv) = Z"
    unfolding conv_def Z_def convolve_total table_sum ..
  have norm: "normalizeProbDict conv = Inr pn_mm"
    using Z by (simp add: normalizeProbDict_nonzero total pn_mm_def)
  have mm: "computeWalkOutputWithMM eng nSteps r alphaSq eta gamma 0 max_photons n_noise = Inr pn_mm"
    by (simp add: computeWalkOutputWithMM_def run_photon run_perp conv_def[symmetric] norm)
  have look: "dict_get pn_mm s 0 =
               (if sum_list s \<le> 2 then
                  sum_list (map (\<lambda>o1. sum_list (map (\<lambda>o2.
                    if map2 (+) o1 o2 = s then ph o1 * pp o2 else 0) allLabels)) allLabels)
                else 0) / Z" for s
    unfolding pn_mm_def scaled_lookup conv_def convolve_lookup table_sum ..
  from run_perp mm norm look show ?thesis
    unfolding conv_def Z_def ph_def pp_def by blast
qed

theorem zero_overlap_convolves_both_branches_witness:
  "\<exists>pn_mm.
       computeWalkOutput stub_engine 0 (7 / 100) (2 / 25) (7 / 100) 0 2 (1 / 200000) 0
         = Inr (map (\<lambda>l. (l, stub_state_blocked (1 # l)))
                  [[0, 0], [0, 1], [0, 2], [1, 0], [1, 1], [2, 0]])
     \<and> computeWalkOutputWithMM stub_engine 0 (7 / 100) (2 / 25) (7 / 100) 0 0 2 (1 / 200000) = Inr pn_mm
     \<and> dict_get pn_mm [0, 0] 0 = 1 / 2 \<and> dict_get pn_mm [0, 1] 0 = 1 / 4
     \<and> dict_get pn_mm [1, 1] 0 = 0"
proof -
  let ?L = "[[0, 0], [0, 1], [0, 2], [1, 0], [1, 1], [2, 0]] :: outcome list"
  have labels: "generate_photon_outcomes (2 * 0 + 2) 2 = Inr ?L"
    by (simp add: run_simps)
  have photon: "stub_engine (2 * 0 + 3)
                (walk_program 0 (7 / 100) (np_sqrt 0) (7 / 100) 0 (1 / 200000) 1)
              = Inr stub_state_open"
    by (simp add: run_simps)
  have perp: "stub_engine (2 * 0 + 3)
                (walk_program 0 (7 / 100) (np_sqrt (2 / 25)) (7 / 100) 0 (1 / 200000) 0)
              = Inr stub_state_blocked"
    by (simp add: run_simps)
  have Z: "sum_list (map (\<lambda>o1. sum_list (map (\<lambda>o2.
                 if sum_list (map2 (+) o1 o2) \<le> 2
                 then stub_state_open (1 # o1) * stub_state_blocked (1 # o2) else 0) ?L)) ?L) = 1 / 4"
    by (simp add: stub_state_open_def stub_state_blocked_def)
  then have mass: "sum_list (map (\<lambda>o1. sum_list (map (\<lambda>o2.
                 if sum_list (map2 (+) o1 o2) \<le> 2
                 then stub_state_open (1 # o1) * stub_state_blocked (1 # o2) else 0) ?L)) ?L) \<noteq> 0"
    by simp
  have steps: "(0::int) \<le> 0" by simp
  from zero_overlap_convolves_both_branches
         [where nSteps = 0 and eng = stub_engine and state_photon = stub_state_open
            and state_perp = stub_state_blocked and allLabels = ?L and max_photons = 2,
          OF steps labels photon perp mass]
  obtain pn_mm where
    run: "computeWalkOutput stub_engine 0 (7 / 100) (2 / 25) (7 / 100) 0 2 (1 / 200000) 0
            = Inr (map (\<lambda>l. (l, stub_state_blocked (1 # l))) ?L)"
    and mm: "computeWalkOutputWithMM stub_engine 0 (7 / 100) (2 / 25) (7 / 100) 0 0 2 (1 / 200000)
            = Inr pn_mm"
    and look: "\<forall>s. dict_get pn_mm s 0 =
               (if sum_list s \<le> 2 then
                  sum_list (map (\<lambda>o1. sum_list (map (\<lambda>o2.
                    if map2 (+) o1 o2 = s
                    then stub_state_open (1 # o1) * stub_state_blocked (1 # o2) else 0) ?L)) ?L)
                else 0)
               / sum_list (map (\<lambda>o1. sum_list (map (\<lambda>o2.
                    if sum_list (map2 (+) o1 o2) \<le> 2
                    then stub_state_open (1 # o1) * stub_state_blocked (1 # o2) else 0) ?L)) ?L)"
    by (elim exE conjE)
  have "dict_get pn_mm [0, 0] 0 = 1 / 2" "dict_get pn_mm [0, 1] 0 = 1 / 4"
       "dict_get pn_mm [1, 1] 0 = 0"
    unfolding look[rule_format] Z
    by (simp_all add: stub_state_open_def stub_state_blocked_def)
  with run mm show ?thesis by (intro exI[of _ pn_mm]) simp
qed

end
